theory Spec2Isabelle
  imports Main "HOL-Library.Word"
begin

section \<open>The standalone-bundle extractor (scripts/extract-standalone.ts)\<close>

text \<open>
  A shallow embedding of the extractor: the container locator, the bundle parser, the
  path reconstructor and the bundle writer.

  \<^item> A \<open>Uint8Array\<close> is a list of bytes; a \<open>DataView\<close> over it is the same list.
  \<^item> A JavaScript number that holds a length, an offset or a count is a \<open>nat\<close>; where
    the source can go below zero (an index of \<open>-1\<close>, \<open>trailerIndex - OFFSETS_SIZE\<close>,
    \<open>start\<close>) it is an \<open>int\<close>. The sums and products of 32-bit fields that the source
    forms stay far below \<open>2^53\<close>, so they are exact.
  \<^item> A JavaScript string is a \<open>string\<close>, a list of 8-bit characters: the characters of
    the string when they are ASCII or Latin-1, and the bytes of its UTF-8 encoding
    otherwise. The extractor tests, removes and replaces ASCII characters only and
    copies every other one, and it measures strings only to cut an extension off its own
    path, so each of its operations does to the encoding what it does to the string;
    \<open>toLowerCase\<close> and the decoder apart, which are the host's.
  \<^item> A \<open>throw\<close> is \<open>Inl\<close> of the error thrown, one constructor for each message of the
    source.
  \<^item> The functions of the host (the \<open>path\<close> module, \<open>TextDecoder\<close>,
    \<open>String.prototype.toLowerCase\<close>) are not part of the repository: the embedding takes
    them as a parameter, the record \<open>host\<close>.
  \<^item> The file system is written to, never read: the writer's effect is the list of calls
    it makes (\<open>fs.mkdir\<close>, \<open>fs.writeFile\<close>) in order, each taken to succeed. A call that
    fails (an I/O error) ends the real run there; that is not modelled.
  \<^item> \<open>main\<close> starts from the bytes of the executable and the output directory given;
    reading the command line and the file, and printing, are left out.
\<close>

subsection \<open>Data model\<close>

type_synonym byte = "8 word"

record StringPointer =
  offset :: nat
  length' :: nat

record ModuleRecord =
  originalPath :: string
  contents :: "byte list"
  sourcemap :: "byte list option"
  bytecode :: "byte list option"
  encoding :: nat
  loader :: nat
  moduleFormat :: nat
  side :: nat

record ParsedStandalone =
  modules :: "ModuleRecord list"
  entryPointId :: nat
  compileExecArgv :: string

text \<open>The errors of the source, by the message each \<open>throw\<close> carries (in translation).\<close>

datatype error =
    NotPE                       \<comment> \<open>"the file is not a valid PE (MZ) executable"\<close>
  | PEHeaderOutOfRange          \<comment> \<open>"PE header out of range, the file may be damaged"\<close>
  | PESignatureMissing          \<comment> \<open>"PE\\0\\0 signature not found"\<close>
  | SectionTableIllegal         \<comment> \<open>"illegal section table position"\<close>
  | SectionRecordOutOfRange     \<comment> \<open>"section table record out of range"\<close>
  | BunSectionOutOfRange        \<comment> \<open>".bun section data out of range"\<close>
  | LengthPrefixMismatch        \<comment> \<open>"length prefix of the .bun section does not match the data"\<close>
  | BunSectionMissing           \<comment> \<open>"no .bun section in the PE file"\<close>
  | NoEmbeddedData error        \<comment> \<open>the locator's message, then "and no trailing Bun trailer found"\<close>
  | BlobTooShort                \<comment> \<open>"embedded data too short, trailer or offset table missing"\<close>
  | TrailerMissing              \<comment> \<open>"bun trailer marker not found"\<close>
  | OffsetsPosIllegal           \<comment> \<open>"illegal position of the offset data"\<close>
  | ByteCountUnsafe             \<comment> \<open>"embedded data too large for a safe JS integer"\<close>
  | ByteCountOutOfRange         \<comment> \<open>"byte_count of the offset table exceeds the embedded data"\<close>
  | ModuleTableOutOfRange       \<comment> \<open>"module table out of range, embedded data may be damaged"\<close>
  | UnknownRecordSize           \<comment> \<open>"module record length is no multiple of a known size (36 or 40)"\<close>
  | StringPointerOutOfRange     \<comment> \<open>"string pointer out of range, embedded data damaged"\<close>
  | ModulePointerOutOfRange     \<comment> \<open>"pointer in the module table out of range"\<close>
  | PathOutOfBounds string      \<comment> \<open>"generated path out of bounds: " and the target path\<close>
  | RangeError                  \<comment> \<open>thrown by a \<open>DataView\<close> read outside its view\<close>

definition bindE :: "error + 'a \<Rightarrow> ('a \<Rightarrow> error + 'b) \<Rightarrow> error + 'b" where
  "bindE r f = (case r of Inl e \<Rightarrow> Inl e | Inr x \<Rightarrow> f x)"

subsection \<open>The host\<close>

record host =
  path_sep :: string                              \<comment> \<open>\<open>path.sep\<close>\<close>
  path_resolve :: "string list \<Rightarrow> string"          \<comment> \<open>\<open>path.resolve(...paths)\<close>\<close>
  path_isAbsolute :: "string \<Rightarrow> bool"              \<comment> \<open>\<open>path.isAbsolute\<close>\<close>
  path_extname :: "string \<Rightarrow> string"               \<comment> \<open>\<open>path.extname\<close>\<close>
  path_dirname :: "string \<Rightarrow> string"               \<comment> \<open>\<open>path.dirname\<close>\<close>
  toLowerCase :: "string \<Rightarrow> string"                \<comment> \<open>\<open>String.prototype.toLowerCase\<close>\<close>
  textDecoder_decode :: "byte list \<Rightarrow> string"       \<comment> \<open>\<open>textDecoder.decode\<close>, lenient UTF-8\<close>

subsection \<open>Constants and byte access\<close>

definition TRAILER_BYTES :: "byte list" where
  \<comment> \<open>the bytes of "\\n---- Bun! ----\\n"\<close>
  "TRAILER_BYTES =
     [0x0A, 0x2D, 0x2D, 0x2D, 0x2D, 0x20, 0x42, 0x75, 0x6E, 0x21, 0x20, 0x2D, 0x2D, 0x2D, 0x2D, 0x0A]"

definition OFFSETS_SIZE :: nat where
  "OFFSETS_SIZE = 32"

definition MODULE_RECORD_SIZE :: nat where
  "MODULE_RECORD_SIZE = 40"

definition MAX_SAFE_INTEGER :: nat where
  "MAX_SAFE_INTEGER = 2 ^ 53 - 1"

definition loaderDefaultExtensions :: "nat \<Rightarrow> string option" where
  "loaderDefaultExtensions = map_of
     [(0, ''.jsx''), (1, ''.js''), (2, ''.ts''), (3, ''.tsx''), (4, ''.css''), (5, ''''),
      (6, ''.json''), (7, ''.json''), (8, ''.toml''), (9, ''.wasm''), (10, ''.node''),
      (11, ''.txt''), (12, ''.txt''), (13, ''.txt''), (14, ''.sh''), (15, ''.sqlite''),
      (16, ''.sqlite''), (17, ''.html''), (18, ''.yaml'')]"

definition subarray :: "'a list \<Rightarrow> nat \<Rightarrow> nat \<Rightarrow> 'a list" where
  \<comment> \<open>\<open>bytes.subarray(begin, end)\<close> for \<open>begin, end \<ge> 0\<close>: \<open>end\<close> is clamped to the length\<close>
  "subarray bytes b e = drop b (take e bytes)"

definition le_value :: "byte list \<Rightarrow> nat" where
  \<comment> \<open>the little-endian value of a run of bytes\<close>
  "le_value bs = foldr (\<lambda>b acc. unat b + 256 * acc) bs 0"

definition getUint :: "nat \<Rightarrow> byte list \<Rightarrow> nat \<Rightarrow> error + nat" where
  \<comment> \<open>a little-endian \<open>DataView\<close> read of \<open>n\<close> bytes; outside the view it throws\<close>
  "getUint n view byteOffset =
     (if byteOffset + n > length view then Inl RangeError
      else Inr (le_value (take n (drop byteOffset view))))"

definition getUint16 :: "byte list \<Rightarrow> nat \<Rightarrow> error + nat" where
  "getUint16 view byteOffset = getUint 2 view byteOffset"

definition getUint32 :: "byte list \<Rightarrow> nat \<Rightarrow> error + nat" where
  "getUint32 view byteOffset = getUint 4 view byteOffset"

definition getBigUint64 :: "byte list \<Rightarrow> nat \<Rightarrow> error + nat" where
  "getBigUint64 view byteOffset = getUint 8 view byteOffset"

definition matchesAt :: "byte list \<Rightarrow> byte list \<Rightarrow> nat \<Rightarrow> bool" where
  \<comment> \<open>the inner loop of \<open>lastIndexOfSubarray\<close>: no \<open>j\<close> with \<open>haystack[i + j] !== needle[j]\<close>\<close>
  "matchesAt haystack needle i =
     list_all (\<lambda>j. haystack ! (i + j) = needle ! j) [0..<length needle]"

fun scanBack :: "byte list \<Rightarrow> byte list \<Rightarrow> nat \<Rightarrow> int" where
  \<comment> \<open>the outer loop of \<open>lastIndexOfSubarray\<close>, \<open>i\<close> going down to 0\<close>
  "scanBack haystack needle 0 = (if matchesAt haystack needle 0 then 0 else - 1)"
| "scanBack haystack needle (Suc i) =
     (if matchesAt haystack needle (Suc i) then int (Suc i) else scanBack haystack needle i)"

definition lastIndexOfSubarray :: "byte list \<Rightarrow> byte list \<Rightarrow> int" where
  "lastIndexOfSubarray haystack needle =
     (if length needle = 0 \<or> length haystack < length needle then - 1
      else scanBack haystack needle (length haystack - length needle))"

definition readPointer :: "byte list \<Rightarrow> nat \<Rightarrow> error + StringPointer" where
  "readPointer view off =
     bindE (getUint32 view off) (\<lambda>pointerOffset.
     bindE (getUint32 view (off + 4)) (\<lambda>pointerLength.
     Inr \<lparr>offset = pointerOffset, length' = pointerLength\<rparr>))"

definition readPointerFromPayload :: "byte list \<Rightarrow> nat \<Rightarrow> error + StringPointer" where
  "readPointerFromPayload bytes off =
     (if off + 8 > length bytes then Inl ModulePointerOutOfRange
      else let view = take 8 (drop off bytes) in
        bindE (getUint32 view 0) (\<lambda>pointerOffset.
        bindE (getUint32 view 4) (\<lambda>pointerLength.
        Inr \<lparr>offset = pointerOffset, length' = pointerLength\<rparr>)))"

definition slicePointer :: "byte list \<Rightarrow> StringPointer \<Rightarrow> error + byte list" where
  "slicePointer bytes ptr =
     (if length' ptr = 0 then Inr []
      else let e = offset ptr + length' ptr in
        if e > length bytes then Inl StringPointerOutOfRange
        else Inr (subarray bytes (offset ptr) e))"

definition decodeUtf8 :: "host \<Rightarrow> byte list \<Rightarrow> StringPointer \<Rightarrow> error + string" where
  "decodeUtf8 h bytes ptr =
     (if length' ptr = 0 then Inr ''''
      else bindE (slicePointer bytes ptr) (\<lambda>slice. Inr (textDecoder_decode h slice)))"

definition decodeAsciiNullTerminated :: "host \<Rightarrow> byte list \<Rightarrow> string" where
  "decodeAsciiNullTerminated h bytes = textDecoder_decode h (takeWhile (\<lambda>b. b \<noteq> 0) bytes)"

subsection \<open>Container locator\<close>

fun scanSections :: "host \<Rightarrow> byte list \<Rightarrow> nat \<Rightarrow> nat list \<Rightarrow> error + byte list" where
  \<comment> \<open>the section loop of \<open>extractBunSection\<close>, over \<open>i = 0, ..., numberOfSections - 1\<close>\<close>
  "scanSections h fileBytes sectionTableOffset [] = Inl BunSectionMissing"
| "scanSections h fileBytes sectionTableOffset (i # rest) =
     (let sectionOffset = sectionTableOffset + i * 40 in
      if sectionOffset + 40 > length fileBytes then Inl SectionRecordOutOfRange
      else
        let nameBytes = subarray fileBytes sectionOffset (sectionOffset + 8);
            sectionName = decodeAsciiNullTerminated h nameBytes
        in
        if sectionName \<noteq> ''.bun'' then scanSections h fileBytes sectionTableOffset rest
        else
          bindE (getUint32 fileBytes (sectionOffset + 16)) (\<lambda>sizeOfRawData.
          bindE (getUint32 fileBytes (sectionOffset + 20)) (\<lambda>pointerToRawData.
          if pointerToRawData + sizeOfRawData > length fileBytes
             \<or> pointerToRawData + 4 > length fileBytes
          then Inl BunSectionOutOfRange
          else
            bindE (getUint32 fileBytes pointerToRawData) (\<lambda>dataLength.
            let dataStart = pointerToRawData + 4;
                dataEnd = dataStart + dataLength
            in
            if dataEnd > pointerToRawData + sizeOfRawData \<or> dataEnd > length fileBytes
            then Inl LengthPrefixMismatch
            else Inr (subarray fileBytes dataStart dataEnd)))))"

definition extractBunSection :: "host \<Rightarrow> byte list \<Rightarrow> error + byte list" where
  "extractBunSection h fileBytes =
     (if length fileBytes < 0x40 then Inl NotPE
      else
        bindE (getUint16 fileBytes 0) (\<lambda>magic.
        if magic \<noteq> 0x5a4d then Inl NotPE
        else
          bindE (getUint32 fileBytes 0x3c) (\<lambda>peHeaderOffset.
          if peHeaderOffset + 24 > length fileBytes then Inl PEHeaderOutOfRange
          else
            bindE (getUint32 fileBytes peHeaderOffset) (\<lambda>signature.
            if signature \<noteq> 0x4550 then Inl PESignatureMissing
            else
              bindE (getUint16 fileBytes (peHeaderOffset + 6)) (\<lambda>numberOfSections.
              bindE (getUint16 fileBytes (peHeaderOffset + 20)) (\<lambda>sizeOfOptionalHeader.
              let sectionTableOffset = peHeaderOffset + 24 + sizeOfOptionalHeader in
              if sectionTableOffset > length fileBytes then Inl SectionTableIllegal
              else scanSections h fileBytes sectionTableOffset [0..<numberOfSections]))))))"

definition extractTrailerAppendedBlob :: "byte list \<Rightarrow> error + byte list option" where
  \<comment> \<open>\<open>None\<close> is the source's \<open>null\<close>\<close>
  "extractTrailerAppendedBlob fileBytes =
     (if length fileBytes < length TRAILER_BYTES + OFFSETS_SIZE + 8 then Inr None
      else if lastIndexOfSubarray fileBytes TRAILER_BYTES = - 1 then Inr None
      else
        let lengthFieldOffset = length fileBytes - 8 in
        bindE (getBigUint64 fileBytes lengthFieldOffset) (\<lambda>totalBytesBig.
        if totalBytesBig = 0 then Inr None
        else
          let fileLengthBig = length fileBytes in
          if totalBytesBig = 0 \<or> totalBytesBig > fileLengthBig then Inr None
          else
            let totalBytes =
                  (if totalBytesBig > MAX_SAFE_INTEGER then MAX_SAFE_INTEGER else totalBytesBig)
            in
            if totalBytes = MAX_SAFE_INTEGER \<and> totalBytesBig > MAX_SAFE_INTEGER then Inr None
            else
              let start = int (length fileBytes) - 8 - int totalBytes in
              if start < 0 then Inr None
              else
                let blob = subarray fileBytes (nat start) (length fileBytes - 8) in
                if lastIndexOfSubarray blob TRAILER_BYTES = - 1 then Inr None
                else Inr (Some blob)))"

definition extractEmbeddedData :: "host \<Rightarrow> byte list \<Rightarrow> error + byte list" where
  \<comment> \<open>\<open>try { return extractBunSection(..) } catch (peErr) { .. }\<close>\<close>
  "extractEmbeddedData h fileBytes =
     (case extractBunSection h fileBytes of
        Inr section \<Rightarrow> Inr section
      | Inl peErr \<Rightarrow>
          bindE (extractTrailerAppendedBlob fileBytes) (\<lambda>fallback.
          case fallback of
            Some blob \<Rightarrow> Inr blob
          | None \<Rightarrow> Inl (NoEmbeddedData peErr)))"

subsection \<open>Bundle parser\<close>

definition readOffsetTable ::
  "byte list \<Rightarrow> error + (nat \<times> StringPointer \<times> nat \<times> StringPointer)" where
  \<comment> \<open>\<open>parseStandalone\<close>, lines 194-217: \<open>(byteCount, modulesPtr, entryPointId, compileExecArgvPtr)\<close>\<close>
  "readOffsetTable blob =
     (if length blob < length TRAILER_BYTES + OFFSETS_SIZE then Inl BlobTooShort
      else
        let trailerIndex = lastIndexOfSubarray blob TRAILER_BYTES in
        if trailerIndex = - 1 then Inl TrailerMissing
        else
          let offsetsPos = trailerIndex - int OFFSETS_SIZE in
          if offsetsPos < 0 then Inl OffsetsPosIllegal
          else
            bindE (getBigUint64 blob (nat offsetsPos)) (\<lambda>byteCountBig.
            if byteCountBig > MAX_SAFE_INTEGER then Inl ByteCountUnsafe
            else
              let byteCount = byteCountBig in
              bindE (readPointer blob (nat offsetsPos + 8)) (\<lambda>modulesPtr.
              bindE (getUint32 blob (nat offsetsPos + 16)) (\<lambda>entryPointId.
              bindE (readPointer blob (nat offsetsPos + 20)) (\<lambda>compileExecArgvPtr.
              Inr (byteCount, modulesPtr, entryPointId, compileExecArgvPtr))))))"

definition selectRecordSize :: "StringPointer \<Rightarrow> error + nat" where
  \<comment> \<open>\<open>parseStandalone\<close>, lines 229-237\<close>
  "selectRecordSize modulesPtr =
     (let recordSize = MODULE_RECORD_SIZE in
      if length' modulesPtr mod recordSize \<noteq> 0 then
        (let alternateSize = 36 in
         if length' modulesPtr mod alternateSize = 0 then Inr alternateSize
         else Inl UnknownRecordSize)
      else Inr recordSize)"

definition byteOr :: "byte list \<Rightarrow> nat \<Rightarrow> nat \<Rightarrow> nat" where
  \<comment> \<open>\<open>payload[i] ?? d\<close>: an index outside the array reads \<open>undefined\<close>\<close>
  "byteOr payload i d = (if i < length payload then unat (payload ! i) else d)"

definition readModule :: "host \<Rightarrow> byte list \<Rightarrow> nat \<Rightarrow> error + ModuleRecord" where
  \<comment> \<open>the body of the record loop of \<open>parseStandalone\<close>, lines 244-268, at \<open>base\<close>\<close>
  "readModule h payload base =
     bindE (readPointerFromPayload payload base) (\<lambda>namePtr.
     bindE (readPointerFromPayload payload (base + 8)) (\<lambda>contentsPtr.
     bindE (readPointerFromPayload payload (base + 16)) (\<lambda>sourcemapPtr.
     bindE (readPointerFromPayload payload (base + 24)) (\<lambda>bytecodePtr.
     let encoding = byteOr payload (base + 32) 0;
         loader = byteOr payload (base + 33) 5;
         moduleFormat = byteOr payload (base + 34) 0;
         side = byteOr payload (base + 35) 0
     in
     bindE (decodeUtf8 h payload namePtr) (\<lambda>originalPath.
     bindE (slicePointer payload contentsPtr) (\<lambda>contents.
     bindE (if length' sourcemapPtr > 0 then map_sum id Some (slicePointer payload sourcemapPtr)
            else Inr None) (\<lambda>sourcemap.
     bindE (if length' bytecodePtr > 0 then map_sum id Some (slicePointer payload bytecodePtr)
            else Inr None) (\<lambda>bytecode.
     Inr \<lparr>originalPath = originalPath, contents = contents, sourcemap = sourcemap,
          bytecode = bytecode, encoding = encoding, loader = loader,
          moduleFormat = moduleFormat, side = side\<rparr>))))))))"

fun readModules ::
  "host \<Rightarrow> byte list \<Rightarrow> StringPointer \<Rightarrow> nat \<Rightarrow> nat list \<Rightarrow> error + ModuleRecord list" where
  \<comment> \<open>the record loop, over \<open>i = 0, ..., recordCount - 1\<close>; the first error ends it\<close>
  "readModules h payload modulesPtr recordSize [] = Inr []"
| "readModules h payload modulesPtr recordSize (i # rest) =
     bindE (readModule h payload (offset modulesPtr + i * recordSize)) (\<lambda>m.
     bindE (readModules h payload modulesPtr recordSize rest) (\<lambda>ms.
     Inr (m # ms)))"

definition parseRecords ::
  "host \<Rightarrow> byte list \<Rightarrow> StringPointer \<Rightarrow> nat \<Rightarrow> StringPointer \<Rightarrow> nat
     \<Rightarrow> error + ParsedStandalone" where
  \<comment> \<open>\<open>parseStandalone\<close>, lines 239-277, once the record size is chosen\<close>
  "parseRecords h payload modulesPtr entryId compileExecArgvPtr recordSize =
     (let recordCount = length' modulesPtr div recordSize in
      bindE (readModules h payload modulesPtr recordSize [0..<recordCount]) (\<lambda>modules.
      bindE (decodeUtf8 h payload compileExecArgvPtr) (\<lambda>compileExecArgv.
      Inr \<lparr>modules = modules, entryPointId = entryId,
           compileExecArgv = compileExecArgv\<rparr>)))"

definition parseStandalone :: "host \<Rightarrow> byte list \<Rightarrow> error + ParsedStandalone" where
  "parseStandalone h blob =
     bindE (readOffsetTable blob) (\<lambda>(byteCount, modulesPtr, entryPointId, compileExecArgvPtr).
     if byteCount > length blob then Inl ByteCountOutOfRange
     else
       let payload = subarray blob 0 byteCount;
           modulesEnd = offset modulesPtr + length' modulesPtr
       in
       if modulesEnd > length payload then Inl ModuleTableOutOfRange
       else
         bindE (selectRecordSize modulesPtr) (\<lambda>recordSize.
         parseRecords h payload modulesPtr entryPointId compileExecArgvPtr recordSize))"

subsection \<open>Strings\<close>

definition digitChar :: "nat \<Rightarrow> char" where
  "digitChar d = ''0123456789'' ! d"

fun toString :: "nat \<Rightarrow> string" where
  \<comment> \<open>\<open>n.toString()\<close> and \<open>`${n}`\<close> for a count or an index: its decimal digits\<close>
  "toString n =
     (if n < 10 then [digitChar n] else toString (n div 10) @ [digitChar (n mod 10)])"

definition padStart :: "nat \<Rightarrow> char \<Rightarrow> string \<Rightarrow> string" where
  "padStart n c s = replicate (n - length s) c @ s"

definition startsWith :: "string \<Rightarrow> string \<Rightarrow> bool" where
  "startsWith s p = (take (length p) s = p)"

definition endsWith :: "string \<Rightarrow> string \<Rightarrow> bool" where
  "endsWith s p = (length p \<le> length s \<and> drop (length s - length p) s = p)"

definition sliceTo :: "string \<Rightarrow> int \<Rightarrow> string" where
  \<comment> \<open>\<open>s.slice(0, e)\<close>: a negative \<open>e\<close> counts from the end\<close>
  "sliceTo s e = (if e < 0 then take (nat (int (length s) + e)) s else take (nat e) s)"

fun splitOn :: "char \<Rightarrow> string \<Rightarrow> string list" where
  \<comment> \<open>\<open>s.split(c)\<close> for a one-character separator\<close>
  "splitOn c [] = [[]]"
| "splitOn c (x # xs) =
     (if x = c then [] # splitOn c xs
      else (case splitOn c xs of [] \<Rightarrow> [[x]] | p # ps \<Rightarrow> (x # p) # ps))"

function splitRuns :: "(char \<Rightarrow> bool) \<Rightarrow> string \<Rightarrow> string list" where
  \<comment> \<open>\<open>s.split(/[..]+/)\<close>: the separator is a longest run of characters of the class\<close>
  "splitRuns P [] = [[]]"
| "splitRuns P (x # xs) =
     (if P x then [] # splitRuns P (dropWhile P xs)
      else (case splitRuns P xs of [] \<Rightarrow> [[x]] | p # ps \<Rightarrow> (x # p) # ps))"
  by pat_completeness auto
termination
  by (relation "measure (\<lambda>(P, xs). length xs)")
     (auto simp: le_imp_less_Suc length_dropWhile_le)

fun join :: "string \<Rightarrow> string list \<Rightarrow> string" where
  \<comment> \<open>\<open>parts.join(s)\<close>\<close>
  "join s [] = []"
| "join s [p] = p"
| "join s (p # q # ps) = p @ s @ join s (q # ps)"

definition asciiLower :: string where
  "asciiLower = ''abcdefghijklmnopqrstuvwxyz''"

definition asciiUpper :: string where
  "asciiUpper = ''ABCDEFGHIJKLMNOPQRSTUVWXYZ''"

definition canonicalize :: "char \<Rightarrow> char" where
  \<comment> \<open>the case folding of a regular expression with the flag \<open>i\<close> (and no flag \<open>u\<close>), as far
      as the patterns of the source can tell: they hold ASCII characters only, and no
      character outside ASCII folds to one inside\<close>
  "canonicalize c = (case map_of (zip asciiLower asciiUpper) c of Some u \<Rightarrow> u | None \<Rightarrow> c)"

definition isAsciiLetter :: "char \<Rightarrow> bool" where
  \<comment> \<open>the class \<open>[A-Z]\<close> under the flag \<open>i\<close>\<close>
  "isAsciiLetter c = (c \<in> set asciiLower \<or> c \<in> set asciiUpper)"

definition isSlash :: "char \<Rightarrow> bool" where
  \<comment> \<open>the class \<open>[/\\]\<close>\<close>
  "isSlash c = (c = CHR ''/'' \<or> c = CHR 0x5C)"

definition isIllegal :: "char \<Rightarrow> bool" where
  \<comment> \<open>the class \<open>[:*?"<>|]\<close>\<close>
  "isIllegal c = (c \<in> set '':*?<>|'' \<or> c = CHR 0x22)"

subsection \<open>Path reconstructor\<close>

text \<open>
  A prefix pattern \<open>/^.../\<close> of \<open>sanitizeModulePath\<close> is a function that returns
  what is left of the string once the match is removed, or \<open>None\<close> when the pattern does
  not match (\<open>prefix.test(rel)\<close> is false).
\<close>

definition stripLit :: "string \<Rightarrow> string \<Rightarrow> string option" where
  \<comment> \<open>\<open>/^lit/\<close>\<close>
  "stripLit lit s = (if take (length lit) s = lit then Some (drop (length lit) s) else None)"

definition stripLitCI :: "string \<Rightarrow> string \<Rightarrow> string option" where
  \<comment> \<open>\<open>/^lit/i\<close>\<close>
  "stripLitCI lit s =
     (if map canonicalize (take (length lit) s) = map canonicalize lit
      then Some (drop (length lit) s) else None)"

definition stripDriveCI :: "string \<Rightarrow> string \<Rightarrow> string option" where
  \<comment> \<open>\<open>/^[A-Z]lit/i\<close>\<close>
  "stripDriveCI lit s =
     (case s of [] \<Rightarrow> None | c # cs \<Rightarrow> if isAsciiLetter c then stripLitCI lit cs else None)"

definition stripDotSlashes :: "string \<Rightarrow> string option" where
  \<comment> \<open>\<open>/^\\.\\/+/\<close>: a dot, then every slash that follows (at least one)\<close>
  "stripDotSlashes s =
     (case s of
        c # d # cs \<Rightarrow>
          if c = CHR ''.'' \<and> d = CHR ''/'' then Some (dropWhile (\<lambda>x. x = CHR ''/'') cs) else None
      | _ \<Rightarrow> None)"

definition prefixes :: "(string \<Rightarrow> string option) list" where
  "prefixes =
     [stripLitCI ''B:/~BUN/root/'',
      stripDriveCI '':/~BUN/root/'',
      stripLit ''/$bunfs/root/'',
      stripLitCI ''B:/~BUN/'',
      stripDriveCI '':/~BUN/'',
      stripLit ''/$bunfs/'',
      stripDotSlashes,
      stripLit ''root/'',
      stripLit ''/root/'']"

definition cleanModulePath :: "string \<Rightarrow> string" where
  \<comment> \<open>\<open>sanitizeModulePath\<close>, lines 379-402: the value of \<open>rel\<close> before it is split\<close>
  "cleanModulePath original =
     (let rel0 = filter (\<lambda>c. c \<noteq> CHR 0x00) original;
          rel1 = foldl (\<lambda>rel p. case p rel of Some r \<Rightarrow> r | None \<Rightarrow> rel) rel0 prefixes;
          rel2 = map (\<lambda>c. if isIllegal c then CHR ''_'' else c) rel1;
          rel3 = filter (\<lambda>c. c \<noteq> CHR 0x0D) rel2;
          rel4 = map (\<lambda>c. if c = CHR 0x5C then CHR ''/'' else c) rel3
      in dropWhile (\<lambda>c. c = CHR ''.'') rel4)"

definition sanitizeModulePath :: "string \<Rightarrow> string" where
  \<comment> \<open>lines 404-405 on the value of \<open>rel\<close>\<close>
  "sanitizeModulePath original =
     (let rel = cleanModulePath original;
          parts = filter (\<lambda>part. part \<noteq> '''' \<and> part \<noteq> ''..'') (splitOn CHR ''/'' rel)
      in join ''/'' parts)"

definition fallbackName :: "nat \<Rightarrow> string" where
  \<comment> \<open>\<open>`module-${index.toString().padStart(4, "0")}`\<close>\<close>
  "fallbackName index = ''module-'' @ padStart 4 CHR ''0'' (toString index)"

definition finalPathOf :: "host \<Rightarrow> ModuleRecord \<Rightarrow> nat \<Rightarrow> string" where
  \<comment> \<open>\<open>chooseRelativePath\<close>, lines 348-364: the path before collision resolution\<close>
  "finalPathOf h module index =
     (let fallbackExt =
            (case loaderDefaultExtensions (loader module) of Some e \<Rightarrow> e | None \<Rightarrow> ''.bin'');
          candidate0 = sanitizeModulePath (originalPath module);
          candidate1 = (if candidate0 = '''' then fallbackName index @ fallbackExt else candidate0);
          candidate2 = dropWhile isSlash candidate1;
          candidate3 =
            (if candidate2 = '''' \<or> path_isAbsolute h candidate2
             then fallbackName index @ fallbackExt else candidate2);
          normalized = filter (\<lambda>s. s \<noteq> '''') (splitRuns isSlash candidate3);
          finalPath = join (path_sep h) normalized
      in if finalPath = '''' then fallbackName index else finalPath)"

definition suffixed :: "host \<Rightarrow> string \<Rightarrow> nat \<Rightarrow> string" where
  \<comment> \<open>\<open>chooseRelativePath\<close>, lines 370-372: \<open>`${base}.${count}${ext}`\<close>\<close>
  "suffixed h finalPath count =
     (let ext = path_extname h finalPath;
          base = sliceTo finalPath (int (length finalPath) - int (length ext))
      in base @ ''.'' @ toString count @ ext)"

definition chooseRelativePath ::
  "host \<Rightarrow> ModuleRecord \<Rightarrow> nat \<Rightarrow> (string \<rightharpoonup> nat) \<Rightarrow> string \<times> (string \<rightharpoonup> nat)" where
  \<comment> \<open>returns the path and the map \<open>used\<close> as the call leaves it\<close>
  "chooseRelativePath h module index used =
     (let finalPath = finalPathOf h module index;
          key = toLowerCase h finalPath
      in case used key of
           Some c \<Rightarrow> (let count = c + 1 in (suffixed h finalPath count, used(key \<mapsto> count)))
         | None \<Rightarrow> (finalPath, used(key \<mapsto> 1)))"

fun choosePaths :: "host \<Rightarrow> ModuleRecord list \<Rightarrow> nat \<Rightarrow> (string \<rightharpoonup> nat) \<Rightarrow> string list" where
  \<comment> \<open>the paths that the calls of \<open>chooseRelativePath\<close> return over a run of the writer's
      loop, from \<open>index\<close> on, each call handing \<open>used\<close> to the next\<close>
  "choosePaths h [] index used = []"
| "choosePaths h (module # rest) index used =
     (let (relPath, used') = chooseRelativePath h module index used
      in relPath # choosePaths h rest (Suc index) used')"

fun finalPaths :: "host \<Rightarrow> ModuleRecord list \<Rightarrow> nat \<Rightarrow> string list" where
  \<comment> \<open>the paths before collision resolution, module by module, from \<open>index\<close> on\<close>
  "finalPaths h [] index = []"
| "finalPaths h (module # rest) index = finalPathOf h module index # finalPaths h rest (Suc index)"

subsection \<open>Bundle writer\<close>

record ModuleMeta =
  index_m :: nat
  originalPath_m :: string
  relativePath :: string
  loader_m :: nat
  encoding_m :: nat
  moduleFormat_m :: nat
  side_m :: nat
  hasSourcemap :: bool
  hasBytecode :: bool

record Metadata =
  modules_m :: "ModuleMeta list"
  entryPointId_m :: nat
  compileExecArgv_m :: string

text \<open>
  What a call of \<open>fs.writeFile\<close> writes: bytes, a text, or the manifest, whose JSON text
  (\<open>JSON.stringify\<close>) is left as the value it prints.
\<close>

datatype file_data = Bytes "byte list" | Text string | Json Metadata

datatype fs_op = Mkdir string | WriteFile string file_data

definition ensureTrailingSep :: "host \<Rightarrow> string \<Rightarrow> string" where
  "ensureTrailingSep h dir = (if endsWith dir (path_sep h) then dir else dir @ path_sep h)"

definition moduleWrites :: "host \<Rightarrow> string \<Rightarrow> ModuleRecord \<Rightarrow> fs_op list" where
  \<comment> \<open>\<open>writeOutputs\<close>, lines 296-305: the calls for one module, at its target path\<close>
  "moduleWrites h targetPath module =
     [Mkdir (path_dirname h targetPath), WriteFile targetPath (Bytes (contents module))]
     @ (case sourcemap module of
          Some sm \<Rightarrow> [WriteFile (targetPath @ ''.map'') (Bytes sm)] | None \<Rightarrow> [])
     @ (case bytecode module of
          Some bc \<Rightarrow> [WriteFile (targetPath @ ''.bytecode.bin'') (Bytes bc)] | None \<Rightarrow> [])"

definition moduleMeta :: "nat \<Rightarrow> ModuleRecord \<Rightarrow> string \<Rightarrow> ModuleMeta" where
  \<comment> \<open>\<open>writeOutputs\<close>, lines 307-317\<close>
  "moduleMeta i module relPath =
     \<lparr>index_m = i, originalPath_m = originalPath module, relativePath = relPath,
      loader_m = loader module, encoding_m = encoding module,
      moduleFormat_m = moduleFormat module, side_m = side module,
      hasSourcemap = (sourcemap module \<noteq> None), hasBytecode = (bytecode module \<noteq> None)\<rparr>"

definition insideOutput :: "string \<Rightarrow> string \<Rightarrow> string \<Rightarrow> bool" where
  \<comment> \<open>the negation of the test of line 292\<close>
  "insideOutput resolvedOutput resolvedOutputWithSep targetPath =
     (startsWith targetPath resolvedOutputWithSep \<or> targetPath = resolvedOutput)"

fun writeModules ::
  "host \<Rightarrow> string \<Rightarrow> string \<Rightarrow> ModuleRecord list \<Rightarrow> nat \<Rightarrow> (string \<rightharpoonup> nat)
     \<Rightarrow> fs_op list \<times> ModuleMeta list \<times> error option" where
  \<comment> \<open>the module loop of \<open>writeOutputs\<close>, lines 288-318, from \<open>index\<close> on: the calls made,
      the entries pushed to \<open>metadata\<close>, and the error thrown, if any\<close>
  "writeModules h resolvedOutput resolvedOutputWithSep [] index usedPaths = ([], [], None)"
| "writeModules h resolvedOutput resolvedOutputWithSep (module # rest) index usedPaths =
     (let (relPath, usedPaths') = chooseRelativePath h module index usedPaths;
          targetPath = path_resolve h [resolvedOutput, relPath]
      in
      if \<not> startsWith targetPath resolvedOutputWithSep \<and> targetPath \<noteq> resolvedOutput
      then ([], [], Some (PathOutOfBounds targetPath))
      else
        let (ops, metadata, err) =
              writeModules h resolvedOutput resolvedOutputWithSep rest (Suc index) usedPaths'
        in (moduleWrites h targetPath module @ ops,
            moduleMeta index module relPath # metadata, err))"

definition closingWrites :: "host \<Rightarrow> string \<Rightarrow> ParsedStandalone \<Rightarrow> ModuleMeta list \<Rightarrow> fs_op list" where
  \<comment> \<open>\<open>writeOutputs\<close>, lines 320-340: the argument file, if any, and the manifest\<close>
  "closingWrites h resolvedOutput parsed metadata =
     (if length (compileExecArgv parsed) > 0
      then [WriteFile (path_resolve h [resolvedOutput, ''__compile_exec_argv.txt''])
              (Text (compileExecArgv parsed @ [CHR 0x0A]))]
      else [])
     @ [WriteFile (path_resolve h [resolvedOutput, ''metadata.json''])
          (Json \<lparr>modules_m = metadata, entryPointId_m = entryPointId parsed,
                 compileExecArgv_m = compileExecArgv parsed\<rparr>)]"

definition writeOutputs :: "host \<Rightarrow> ParsedStandalone \<Rightarrow> string \<Rightarrow> fs_op list \<times> error option" where
  \<comment> \<open>the calls made, in order, and the error thrown, if any\<close>
  "writeOutputs h parsed outputDir =
     (let resolvedOutput = path_resolve h [outputDir];
          resolvedOutputWithSep = ensureTrailingSep h resolvedOutput;
          (ops, metadata, err) =
            writeModules h resolvedOutput resolvedOutputWithSep (modules parsed) 0 Map.empty
      in
      case err of
        Some e \<Rightarrow> (Mkdir resolvedOutput # ops, Some e)
      | None \<Rightarrow>
          (Mkdir resolvedOutput # ops @ closingWrites h resolvedOutput parsed metadata, None))"

text \<open>
  The run put together, for the statements below: the target paths of the modules, the
  calls for the modules up to a point, and the entries of the manifest.
\<close>

definition targetPaths :: "host \<Rightarrow> string \<Rightarrow> ModuleRecord list \<Rightarrow> string list" where
  \<comment> \<open>\<open>targetPath\<close> of line 290, module by module\<close>
  "targetPaths h resolvedOutput ms =
     map (\<lambda>relPath. path_resolve h [resolvedOutput, relPath]) (choosePaths h ms 0 Map.empty)"

definition allModuleWrites :: "host \<Rightarrow> string list \<Rightarrow> ModuleRecord list \<Rightarrow> fs_op list" where
  "allModuleWrites h ts ms = concat (map (\<lambda>(t, m). moduleWrites h t m) (zip ts ms))"

fun allModuleMeta :: "nat \<Rightarrow> ModuleRecord list \<Rightarrow> string list \<Rightarrow> ModuleMeta list" where
  \<comment> \<open>the entries for the modules \<open>ms\<close> with the paths \<open>ps\<close>, numbered from \<open>i\<close> on\<close>
  "allModuleMeta i (m # ms) (p # ps) = moduleMeta i m p # allModuleMeta (Suc i) ms ps"
| "allModuleMeta i ms ps = []"

definition main :: "host \<Rightarrow> byte list \<Rightarrow> string \<Rightarrow> fs_op list \<times> error option" where
  \<comment> \<open>\<open>main\<close> from the bytes of the executable and the output directory given\<close>
  "main h exeBytes outputArg =
     (let outputDir = path_resolve h [outputArg] in
      case extractEmbeddedData h exeBytes of
        Inl e \<Rightarrow> ([], Some e)
      | Inr embedded \<Rightarrow>
          (case parseStandalone h embedded of
             Inl e \<Rightarrow> ([], Some e)
           | Inr parsed \<Rightarrow> writeOutputs h parsed outputDir))"

subsection \<open>A host for the examples\<close>

text \<open>
  The examples run on one host: Node's \<open>path.posix\<close>, written after the algorithms of
  its \<open>resolve\<close>, \<open>isAbsolute\<close>, \<open>extname\<close> and \<open>dirname\<close>, in the working directory
  \<open>cwd\<close> (an absolute path). Its \<open>toLowerCase\<close> and its decoder are the host's on ASCII
  text, which is all the examples hold. One general theorem depends on this host, by its
  path functions only: the statement of C1 about the targets that \<open>resolve\<close> returns.
\<close>

definition posix_isAbsolute :: "string \<Rightarrow> bool" where
  "posix_isAbsolute p = (case p of [] \<Rightarrow> False | c # _ \<Rightarrow> c = CHR ''/'')"

fun posix_normalize :: "string list \<Rightarrow> string list \<Rightarrow> string list" where
  \<comment> \<open>\<open>normalizeString\<close> of an absolute path, segment by segment: \<open>res\<close> is the result so far\<close>
  "posix_normalize [] res = res"
| "posix_normalize (seg # segs) res =
     (if seg = '''' \<or> seg = ''.'' then posix_normalize segs res
      else if seg = ''..'' then posix_normalize segs (butlast res)
      else posix_normalize segs (res @ [seg]))"

fun posix_gather :: "string list \<Rightarrow> string \<Rightarrow> string" where
  \<comment> \<open>the loop of \<open>resolve\<close>: the arguments from the last to the first, then the working
      directory, until an absolute one is met; empty ones are skipped\<close>
  "posix_gather [] resolvedPath = resolvedPath"
| "posix_gather (p # ps) resolvedPath =
     (if p = '''' then posix_gather ps resolvedPath
      else if posix_isAbsolute p then p @ ''/'' @ resolvedPath
      else posix_gather ps (p @ ''/'' @ resolvedPath))"

definition posix_resolve :: "string \<Rightarrow> string list \<Rightarrow> string" where
  "posix_resolve cwd paths =
     ''/'' @ join ''/'' (posix_normalize (splitOn CHR ''/'' (posix_gather (rev paths @ [cwd]) '''')) [])"

record extname_state =
  startDot :: int
  startPart :: nat
  end' :: int
  matchedSlash :: bool
  preDotState :: int
  stopped :: bool

definition posix_extname_step :: "string \<Rightarrow> extname_state \<Rightarrow> nat \<Rightarrow> extname_state" where
  \<comment> \<open>one turn of the loop of \<open>extname\<close>, at index \<open>i\<close>; \<open>stopped\<close> is its \<open>break\<close>\<close>
  "posix_extname_step p st i =
     (if stopped st then st
      else if p ! i = CHR ''/'' then
        (if \<not> matchedSlash st then st\<lparr>startPart := i + 1, stopped := True\<rparr> else st)
      else
        let st1 = (if end' st = - 1 then st\<lparr>end' := int i + 1, matchedSlash := False\<rparr> else st) in
        if p ! i = CHR ''.'' then
          (if startDot st1 = - 1 then st1\<lparr>startDot := int i\<rparr>
           else if preDotState st1 \<noteq> 1 then st1\<lparr>preDotState := 1\<rparr>
           else st1)
        else if startDot st1 \<noteq> - 1 then st1\<lparr>preDotState := - 1\<rparr>
        else st1)"

definition posix_extname :: "string \<Rightarrow> string" where
  "posix_extname p =
     (let st = foldl (posix_extname_step p)
                 \<lparr>startDot = - 1, startPart = 0, end' = - 1, matchedSlash = True,
                  preDotState = 0, stopped = False\<rparr>
                 (rev [0..<length p])
      in
      if startDot st = - 1 \<or> end' st = - 1 \<or> preDotState st = 0
         \<or> (preDotState st = 1 \<and> startDot st = end' st - 1
             \<and> startDot st = int (startPart st) + 1)
      then ''''
      else drop (nat (startDot st)) (take (nat (end' st)) p))"

fun posix_dirname_end :: "string \<Rightarrow> nat \<Rightarrow> bool \<Rightarrow> int" where
  \<comment> \<open>the loop of \<open>dirname\<close>, \<open>i\<close> going down to 1: the value of \<open>end\<close>\<close>
  "posix_dirname_end p 0 matched = - 1"
| "posix_dirname_end p (Suc i) matched =
     (if p ! Suc i = CHR ''/'' then
        (if \<not> matched then int (Suc i) else posix_dirname_end p i matched)
      else posix_dirname_end p i False)"

definition posix_dirname :: "string \<Rightarrow> string" where
  "posix_dirname p =
     (if p = '''' then ''.''
      else
        let hasRoot = posix_isAbsolute p;
            e = posix_dirname_end p (length p - 1) True
        in
        if e = - 1 then (if hasRoot then ''/'' else ''.'')
        else if hasRoot \<and> e = 1 then ''//''
        else take (nat e) p)"

definition asciiToLowerCase :: "string \<Rightarrow> string" where
  "asciiToLowerCase s =
     map (\<lambda>c. case map_of (zip asciiUpper asciiLower) c of Some l \<Rightarrow> l | None \<Rightarrow> c) s"

definition asciiDecode :: "byte list \<Rightarrow> string" where
  "asciiDecode bs = map (\<lambda>b. char_of (unat b)) bs"

definition posix_host :: "string \<Rightarrow> host" where
  "posix_host cwd =
     \<lparr>path_sep = ''/'', path_resolve = posix_resolve cwd, path_isAbsolute = posix_isAbsolute,
      path_extname = posix_extname, path_dirname = posix_dirname,
      toLowerCase = asciiToLowerCase, textDecoder_decode = asciiDecode\<rparr>"

subsection \<open>Values for the examples\<close>

definition exampleModule :: "string \<Rightarrow> ModuleRecord" where
  \<comment> \<open>a script module (loader 1) of the given virtual path, with no content\<close>
  "exampleModule p =
     \<lparr>originalPath = p, contents = [], sourcemap = None, bytecode = None,
      encoding = 0, loader = 1, moduleFormat = 0, side = 0\<rparr>"

definition unresolving_host :: host where
  \<comment> \<open>the POSIX host, but for a \<open>resolve\<close> that returns its last argument as it is: a
      host that does not keep a target under the output directory, to run the check of
      line 292 into its error\<close>
  "unresolving_host = (posix_host ''/w'')\<lparr>path_resolve := last\<rparr>"

definition le_bytes :: "nat \<Rightarrow> nat \<Rightarrow> byte list" where
  \<comment> \<open>the value \<open>v\<close> as \<open>n\<close> little-endian bytes\<close>
  "le_bytes n v = map (\<lambda>k. of_nat (v div 256 ^ k)) [0..<n]"

definition exampleBlob :: "byte list \<Rightarrow> StringPointer \<Rightarrow> nat \<Rightarrow> StringPointer \<Rightarrow> byte list" where
  \<comment> \<open>an embedded blob: the payload, the offset table (\<open>byteCount\<close> the length of the
      payload, the module table pointer, the entry point, the argument pointer, four
      more bytes) and the trailer\<close>
  "exampleBlob payload modulesPtr entry argvPtr =
     payload
     @ le_bytes 8 (length payload)
     @ le_bytes 4 (offset modulesPtr) @ le_bytes 4 (length' modulesPtr)
     @ le_bytes 4 entry
     @ le_bytes 4 (offset argvPtr) @ le_bytes 4 (length' argvPtr)
     @ le_bytes 4 0
     @ TRAILER_BYTES"

definition exampleRecord ::
  "StringPointer \<Rightarrow> StringPointer \<Rightarrow> StringPointer \<Rightarrow> StringPointer \<Rightarrow> nat \<Rightarrow> byte list" where
  \<comment> \<open>a module record of \<open>recordSize\<close> bytes (36 or 40): four pointers, the tags encoding 0,
      loader 1, format 0, side 0, and zero bytes up to the size\<close>
  "exampleRecord namePtr contentsPtr sourcemapPtr bytecodePtr recordSize =
     le_bytes 4 (offset namePtr) @ le_bytes 4 (length' namePtr)
     @ le_bytes 4 (offset contentsPtr) @ le_bytes 4 (length' contentsPtr)
     @ le_bytes 4 (offset sourcemapPtr) @ le_bytes 4 (length' sourcemapPtr)
     @ le_bytes 4 (offset bytecodePtr) @ le_bytes 4 (length' bytecodePtr)
     @ [0, 1, 0, 0] @ replicate (recordSize - 36) 0"

subsection \<open>The pointers a bundle refers to\<close>

text \<open>
  For the statements about the parser: the pointer stored at an offset of the payload,
  the four pointers of the record at \<open>base\<close>, all pointers the parser slices (those of
  every record, then the argument pointer), and what the parser asks of a pointer.
\<close>

definition rawPointer :: "byte list \<Rightarrow> nat \<Rightarrow> StringPointer" where
  "rawPointer payload off =
     \<lparr>offset = le_value (subarray payload off (off + 4)),
      length' = le_value (subarray payload (off + 4) (off + 8))\<rparr>"

definition recordPointers :: "byte list \<Rightarrow> nat \<Rightarrow> StringPointer list" where
  \<comment> \<open>name, contents, source map, bytecode\<close>
  "recordPointers payload base =
     [rawPointer payload base, rawPointer payload (base + 8),
      rawPointer payload (base + 16), rawPointer payload (base + 24)]"

definition referencedPointers ::
  "byte list \<Rightarrow> StringPointer \<Rightarrow> nat \<Rightarrow> StringPointer \<Rightarrow> StringPointer list" where
  "referencedPointers payload modulesPtr recordSize compileExecArgvPtr =
     concat (map (\<lambda>i. recordPointers payload (offset modulesPtr + i * recordSize))
               [0..<length' modulesPtr div recordSize])
     @ [compileExecArgvPtr]"

definition pointerInRange :: "byte list \<Rightarrow> StringPointer \<Rightarrow> bool" where
  \<comment> \<open>\<open>offset + length <= payload.length\<close>\<close>
  "pointerInRange payload ptr = (offset ptr + length' ptr \<le> length payload)"

definition pointerOk :: "byte list \<Rightarrow> StringPointer \<Rightarrow> bool" where
  \<comment> \<open>of length 0, or in range\<close>
  "pointerOk payload ptr = (length' ptr = 0 \<or> pointerInRange payload ptr)"

definition decodeModule :: "host \<Rightarrow> byte list \<Rightarrow> nat \<Rightarrow> ModuleRecord" where
  \<comment> \<open>the module that the loop body builds from the record at \<open>base\<close> when it does not
      throw\<close>
  "decodeModule h payload base =
     (let namePtr = rawPointer payload base;
          contentsPtr = rawPointer payload (base + 8);
          sourcemapPtr = rawPointer payload (base + 16);
          bytecodePtr = rawPointer payload (base + 24)
      in \<lparr>originalPath =
             (if length' namePtr = 0 then ''''
              else textDecoder_decode h
                     (subarray payload (offset namePtr) (offset namePtr + length' namePtr))),
           contents =
             subarray payload (offset contentsPtr) (offset contentsPtr + length' contentsPtr),
           sourcemap =
             (if length' sourcemapPtr > 0
              then Some (subarray payload (offset sourcemapPtr)
                           (offset sourcemapPtr + length' sourcemapPtr))
              else None),
           bytecode =
             (if length' bytecodePtr > 0
              then Some (subarray payload (offset bytecodePtr)
                           (offset bytecodePtr + length' bytecodePtr))
              else None),
           encoding = byteOr payload (base + 32) 0,
           loader = byteOr payload (base + 33) 5,
           moduleFormat = byteOr payload (base + 34) 0,
           side = byteOr payload (base + 35) 0\<rparr>)"

definition exampleBundle :: "byte list" where
  \<comment> \<open>two records of 40 bytes: \<open>a.js\<close> with contents \<open>[1, 2, 3]\<close> and a source map
      \<open>[9, 9]\<close>; \<open>b.js\<close> with a contents pointer of length 0 whose offset lies beyond the
      payload, no source map, and bytecode \<open>[7]\<close>\<close>
  "exampleBundle =
     exampleBlob
       (exampleRecord \<lparr>offset = 80, length' = 4\<rparr> \<lparr>offset = 84, length' = 3\<rparr>
          \<lparr>offset = 87, length' = 2\<rparr> \<lparr>offset = 0, length' = 0\<rparr> 40
        @ exampleRecord \<lparr>offset = 89, length' = 4\<rparr> \<lparr>offset = 4000, length' = 0\<rparr>
            \<lparr>offset = 0, length' = 0\<rparr> \<lparr>offset = 93, length' = 1\<rparr> 40
        @ [97, 46, 106, 115] @ [1, 2, 3] @ [9, 9] @ [98, 46, 106, 115] @ [7])
       \<lparr>offset = 0, length' = 80\<rparr> 0 \<lparr>offset = 0, length' = 0\<rparr>"

definition exampleArgvBeyond :: "byte list" where
  \<comment> \<open>no module, an empty payload, and an argument pointer of length 0 at offset 1\<close>
  "exampleArgvBeyond =
     exampleBlob [] \<lparr>offset = 0, length' = 0\<rparr> 0 \<lparr>offset = 1, length' = 0\<rparr>"

definition exampleBadName :: "byte list" where
  \<comment> \<open>one record whose name pointer ends beyond the payload\<close>
  "exampleBadName =
     exampleBlob
       (exampleRecord \<lparr>offset = 100, length' = 5\<rparr> \<lparr>offset = 0, length' = 0\<rparr>
          \<lparr>offset = 0, length' = 0\<rparr> \<lparr>offset = 0, length' = 0\<rparr> 40)
       \<lparr>offset = 0, length' = 40\<rparr> 0 \<lparr>offset = 0, length' = 0\<rparr>"

definition exampleBadContents :: "byte list" where
  \<comment> \<open>one record whose contents pointer ends beyond the payload\<close>
  "exampleBadContents =
     exampleBlob
       (exampleRecord \<lparr>offset = 0, length' = 0\<rparr> \<lparr>offset = 100, length' = 5\<rparr>
          \<lparr>offset = 0, length' = 0\<rparr> \<lparr>offset = 0, length' = 0\<rparr> 40)
       \<lparr>offset = 0, length' = 40\<rparr> 0 \<lparr>offset = 0, length' = 0\<rparr>"

definition exampleTableBeyond :: "byte list" where
  \<comment> \<open>an empty payload and a module table of 40 bytes\<close>
  "exampleTableBeyond =
     exampleBlob [] \<lparr>offset = 0, length' = 40\<rparr> 0 \<lparr>offset = 0, length' = 0\<rparr>"

definition exampleFile :: "byte list \<Rightarrow> byte list" where
  \<comment> \<open>a file that is no PE executable and carries the blob at its end, before the length\<close>
  "exampleFile blob = le_bytes 8 0 @ blob @ le_bytes 8 (length blob)"

definition exampleParsed :: ParsedStandalone where
  \<comment> \<open>what \<open>exampleBundle\<close> parses to\<close>
  "exampleParsed =
     \<lparr>modules =
        [\<lparr>originalPath = ''a.js'', contents = [1, 2, 3], sourcemap = Some [9, 9],
          bytecode = None, encoding = 0, loader = 1, moduleFormat = 0, side = 0\<rparr>,
         \<lparr>originalPath = ''b.js'', contents = [], sourcemap = None,
          bytecode = Some [7], encoding = 0, loader = 1, moduleFormat = 0, side = 0\<rparr>],
      entryPointId = 0, compileExecArgv = ''''\<rparr>"

definition exampleOps :: "fs_op list" where
  \<comment> \<open>the calls of the run on \<open>exampleParsed\<close>, on the POSIX host in \<open>/w\<close>, into \<open>out\<close>\<close>
  "exampleOps =
     [Mkdir ''/w/out'',
      Mkdir ''/w/out'', WriteFile ''/w/out/a.js'' (Bytes [1, 2, 3]),
      WriteFile ''/w/out/a.js.map'' (Bytes [9, 9]),
      Mkdir ''/w/out'', WriteFile ''/w/out/b.js'' (Bytes []),
      WriteFile ''/w/out/b.js.bytecode.bin'' (Bytes [7]),
      WriteFile ''/w/out/metadata.json''
        (Json \<lparr>modules_m =
                  [\<lparr>index_m = 0, originalPath_m = ''a.js'', relativePath = ''a.js'',
                    loader_m = 1, encoding_m = 0, moduleFormat_m = 0, side_m = 0,
                    hasSourcemap = True, hasBytecode = False\<rparr>,
                   \<lparr>index_m = 1, originalPath_m = ''b.js'', relativePath = ''b.js'',
                    loader_m = 1, encoding_m = 0, moduleFormat_m = 0, side_m = 0,
                    hasSourcemap = False, hasBytecode = True\<rparr>],
                entryPointId_m = 0, compileExecArgv_m = ''''\<rparr>)]"

subsection \<open>Lying in a directory\<close>

text \<open>
  For the statements about the writer, and independent of the test the writer makes:
  a path lies at or below a directory when the directory's segments (the non-empty
  pieces between separators) are the first segments of the path, and inside it when it
  has more segments than these.
\<close>

definition segments :: "char \<Rightarrow> string \<Rightarrow> string list" where
  "segments c p = filter (\<lambda>s. s \<noteq> '''') (splitOn c p)"

definition atOrBelow :: "char \<Rightarrow> string \<Rightarrow> string \<Rightarrow> bool" where
  "atOrBelow c dir target =
     (take (length (segments c dir)) (segments c target) = segments c dir)"

definition insideDirectory :: "char \<Rightarrow> string \<Rightarrow> string \<Rightarrow> bool" where
  "insideDirectory c dir target =
     (atOrBelow c dir target \<and> length (segments c dir) < length (segments c target))"

text \<open>
  Three conditions for the statements about the POSIX host. The segments that
  \<open>resolve\<close> returns are plain: none is empty, \<open>.\<close> or \<open>..\<close>, none holds a slash. The
  parts of a chosen relative path are names: none is empty or \<open>..\<close>, none holds a slash
  or a backslash. A relative path stays below the directory it is resolved against when
  it is not empty, does not start at the root and has no \<open>..\<close> segment.
\<close>

definition plain :: "string list \<Rightarrow> bool" where
  "plain ps = (\<forall>p\<in>set ps. p \<noteq> '''' \<and> p \<noteq> ''.'' \<and> p \<noteq> ''..'' \<and> CHR ''/'' \<notin> set p)"

definition nameParts :: "string list \<Rightarrow> bool" where
  "nameParts ps =
     (ps \<noteq> [] \<and> (\<forall>p\<in>set ps. p \<noteq> '''' \<and> p \<noteq> ''..'' \<and> (\<forall>c\<in>set p. \<not> isSlash c)))"

definition staysBelow :: "string \<Rightarrow> bool" where
  "staysBelow rel = (rel \<noteq> '''' \<and> hd rel \<noteq> CHR ''/'' \<and> ''..'' \<notin> set (splitOn CHR ''/'' rel))"

section \<open>Properties\<close>

lemma bindE_simps [simp]:
  "bindE (Inl e) f = Inl e"
  "bindE (Inr x) f = f x"
  by (simp_all add: bindE_def)

text \<open>
  C9. Slicing and decoding a pointer of length 0 never raise: \<open>slicePointer\<close> returns the
  empty buffer and \<open>decodeUtf8\<close> the empty string whatever the offset is, also an offset
  beyond the end of the payload, since the test for length 0 comes before the bounds
  check.
\<close>

theorem C9_zero_length_pointer_never_raises:
  "length' ptr = 0 \<Longrightarrow> slicePointer bytes ptr = Inr [] \<and> decodeUtf8 h bytes ptr = Inr ''''"
  by (simp add: slicePointer_def decodeUtf8_def)

theorem C9_zero_length_pointer_witness:
  "length' \<lparr>offset = 4294967295, length' = 0\<rparr> = 0
   \<and> length ([1, 2, 3] :: byte list) < offset \<lparr>offset = 4294967295, length' = 0\<rparr>
   \<and> slicePointer [1, 2, 3] \<lparr>offset = 4294967295, length' = 0\<rparr> = Inr []
   \<and> decodeUtf8 (posix_host ''/'') [1, 2, 3] \<lparr>offset = 4294967295, length' = 0\<rparr> = Inr ''''"
  using C9_zero_length_pointer_never_raises
    [of "\<lparr>offset = 4294967295, length' = 0\<rparr>" "[1, 2, 3]" "posix_host ''/''"]
  by simp

subsection \<open>Path sanitization\<close>

lemma splitOn_not_Nil: "splitOn c s \<noteq> []"
  by (induction s) (auto split: list.splits)

lemma splitOn_no_sep: "p \<in> set (splitOn c s) \<Longrightarrow> c \<notin> set p"
  by (induction s arbitrary: p) (auto split: list.splits if_splits)

lemma splitOn_single: "c \<notin> set p \<Longrightarrow> splitOn c p = [p]"
  by (induction p) auto

lemma splitOn_append_sep: "c \<notin> set p \<Longrightarrow> splitOn c (p @ c # s) = p # splitOn c s"
  by (induction p) auto

lemma splitOn_join:
  "ps \<noteq> [] \<Longrightarrow> \<forall>p\<in>set ps. c \<notin> set p \<Longrightarrow> splitOn c (join [c] ps) = ps"
proof (induction "[c]" ps rule: join.induct)
  case 1
  then show ?case by simp
next
  case (2 p)
  then show ?case by (simp add: splitOn_single)
next
  case (3 p q ps)
  then show ?case by (simp add: splitOn_append_sep)
qed

lemma cleanModulePath_no_backslash: "CHR 0x5C \<notin> set (cleanModulePath p)"
proof -
  have m: "CHR 0x5C \<notin> set (map (\<lambda>c. if c = CHR 0x5C then CHR ''/'' else c) xs)" for xs :: string
    by (induction xs) auto
  have d: "x \<notin> set xs \<Longrightarrow> x \<notin> set (dropWhile P xs)" for x :: char and xs P
    by (auto dest: set_dropWhileD)
  show ?thesis
    unfolding cleanModulePath_def Let_def by (rule d) (rule m)
qed

lemma sanitize_example: "sanitizeModulePath ''../../etc/passwd'' = ''etc/passwd''"
  by code_simp

text \<open>
  C3. \<open>sanitizeModulePath\<close> splits the cleaned path (backslashes already turned into
  slashes, so the slash is the only separator left) on the slash, drops the empty
  segments and every \<open>..\<close> segment, and joins the rest: the segments of its result are
  the segments kept, in their order, and none of them is \<open>..\<close>. The virtual path
  \<open>../../etc/passwd\<close> becomes \<open>etc/passwd\<close>.
\<close>

theorem C3_sanitize_drops_parent_segments:
  "sanitizeModulePath ''../../etc/passwd'' = ''etc/passwd''
   \<and> sanitizeModulePath p
       = join ''/'' (filter (\<lambda>part. part \<noteq> '''' \<and> part \<noteq> ''..'')
                      (splitOn CHR ''/'' (cleanModulePath p)))
   \<and> splitOn CHR ''/'' (sanitizeModulePath p)
       = (if filter (\<lambda>part. part \<noteq> '''' \<and> part \<noteq> ''..'')
               (splitOn CHR ''/'' (cleanModulePath p)) = []
          then ['''']
          else filter (\<lambda>part. part \<noteq> '''' \<and> part \<noteq> ''..'')
                 (splitOn CHR ''/'' (cleanModulePath p)))
   \<and> ''..'' \<notin> set (splitOn CHR ''/'' (sanitizeModulePath p))
   \<and> CHR 0x5C \<notin> set (cleanModulePath p)"
proof -
  let ?kept = "filter (\<lambda>part. part \<noteq> '''' \<and> part \<noteq> ''..'')
                 (splitOn CHR ''/'' (cleanModulePath p))"
  have san: "sanitizeModulePath p = join ''/'' ?kept"
    by (simp add: sanitizeModulePath_def)
  have nosep: "\<forall>q\<in>set ?kept. CHR ''/'' \<notin> set q"
    using splitOn_no_sep by fastforce
  have segs: "splitOn CHR ''/'' (sanitizeModulePath p) = (if ?kept = [] then [''''] else ?kept)"
  proof (cases "?kept = []")
    case True
    then show ?thesis unfolding san by simp
  next
    case False
    then show ?thesis unfolding san using splitOn_join [OF False nosep] by simp
  qed
  have nodd: "''..'' \<notin> set (splitOn CHR ''/'' (sanitizeModulePath p))"
    unfolding segs by auto
  show ?thesis
    using sanitize_example san segs nodd cleanModulePath_no_backslash by blast
qed

theorem C3_sanitize_witness:
  "splitOn CHR ''/'' (sanitizeModulePath ''B:/~BUN/root/a/../b//c.js'') = [''a'', ''b'', ''c.js'']"
proof -
  have "filter (\<lambda>part. part \<noteq> '''' \<and> part \<noteq> ''..'')
          (splitOn CHR ''/'' (cleanModulePath ''B:/~BUN/root/a/../b//c.js''))
        = [''a'', ''b'', ''c.js'']"
    by code_simp
  with C3_sanitize_drops_parent_segments [of "''B:/~BUN/root/a/../b//c.js''"]
  show ?thesis by simp
qed

subsection \<open>Collision resolution\<close>

lemma choosePaths_length [simp]: "length (choosePaths h ms i used) = length ms"
  by (induction ms arbitrary: i used) (auto split: prod.splits)

lemma finalPaths_length [simp]: "length (finalPaths h ms i) = length ms"
  by (induction ms arbitrary: i) auto

text \<open>
  The invariant of the map \<open>used\<close>: it holds, for each key, the number of modules seen
  so far whose path has that key. So the \<open>j\<close>-th path depends only on how many earlier
  paths share its key.
\<close>

lemma choosePaths_nth:
  "j < length ms \<Longrightarrow> 0 \<notin> ran used \<Longrightarrow>
   choosePaths h ms i used ! j =
     (let fps = finalPaths h ms i;
          key = toLowerCase h (fps ! j);
          n = (case used key of None \<Rightarrow> 0 | Some c \<Rightarrow> c)
              + count_list (map (toLowerCase h) (take j fps)) key
      in if n = 0 then fps ! j else suffixed h (fps ! j) (Suc n))"
proof (induction ms arbitrary: i used j)
  case Nil
  then show ?case by simp
next
  case (Cons m ms)
  let ?fp = "finalPathOf h m i"
  let ?key0 = "toLowerCase h ?fp"
  show ?case
  proof (cases j)
    case 0
    show ?thesis
    proof (cases "used ?key0")
      case None
      then show ?thesis using 0 by (simp add: chooseRelativePath_def Let_def)
    next
      case (Some c)
      then have "c \<noteq> 0" using Cons.prems(2) by (metis ranI)
      then show ?thesis using 0 Some by (simp add: chooseRelativePath_def Let_def)
    qed
  next
    case (Suc j')
    define used' where "used' = snd (chooseRelativePath h m i used)"
    have used': "used' = used(?key0 \<mapsto> (case used ?key0 of None \<Rightarrow> 0 | Some c \<Rightarrow> c) + 1)"
      by (simp add: used'_def chooseRelativePath_def Let_def split: option.splits)
    have ran': "0 \<notin> ran used'"
      using Cons.prems(2) unfolding used' ran_def by (auto split: if_splits)
    have j': "j' < length ms" using Cons.prems(1) Suc by simp
    have step: "choosePaths h (m # ms) i used ! j = choosePaths h ms (Suc i) used' ! j'"
      using Suc by (simp add: used'_def split: prod.splits)
    show ?thesis
      unfolding step Cons.IH [OF j' ran']
      using Suc by (simp add: used' Let_def)
  qed
qed

declare toString.simps [simp del]

text \<open>
  C5. The map \<open>used\<close> is keyed by the lower-cased path. Over a run of the loop, module
  \<open>j\<close> keeps its path when no earlier module has a path with the same key (the first
  keeps it); otherwise, with \<open>n\<close> such earlier modules, it gets the count \<open>n + 1\<close> put
  before the extension (\<open>suffixed\<close>): 2 for the first repeat, 3 for the next, and so on.
  Two modules whose paths both resolve to \<open>a/b.js\<close> get \<open>a/b.js\<close> and \<open>a/b.2.js\<close>, in
  record order, on a host whose \<open>extname\<close> of \<open>a/b.js\<close> is \<open>.js\<close>.
\<close>

theorem C5_collision_suffix:
  "(j < length ms \<longrightarrow>
      choosePaths h ms 0 Map.empty ! j =
        (let fps = finalPaths h ms 0;
             n = count_list (map (toLowerCase h) (take j fps)) (toLowerCase h (fps ! j))
         in if n = 0 then fps ! j else suffixed h (fps ! j) (Suc n)))
   \<and> (finalPathOf h m1 0 = ''a/b.js'' \<and> finalPathOf h m2 1 = ''a/b.js''
        \<and> path_extname h ''a/b.js'' = ''.js''
      \<longrightarrow> choosePaths h [m1, m2] 0 Map.empty = [''a/b.js'', ''a/b.2.js''])"
proof (intro conjI impI)
  assume "j < length ms"
  then show "choosePaths h ms 0 Map.empty ! j =
        (let fps = finalPaths h ms 0;
             n = count_list (map (toLowerCase h) (take j fps)) (toLowerCase h (fps ! j))
         in if n = 0 then fps ! j else suffixed h (fps ! j) (Suc n))"
    using choosePaths_nth [of j ms Map.empty h 0] by (simp add: Let_def)
next
  assume a: "finalPathOf h m1 0 = ''a/b.js'' \<and> finalPathOf h m2 1 = ''a/b.js''
        \<and> path_extname h ''a/b.js'' = ''.js''"
  have two: "toString 2 = ''2''" "toString (Suc (Suc 0)) = ''2''" by code_simp+
  show "choosePaths h [m1, m2] 0 Map.empty = [''a/b.js'', ''a/b.2.js'']"
    using a by (simp add: chooseRelativePath_def suffixed_def sliceTo_def two Let_def)
qed

theorem C5_collision_suffix_witness:
  "choosePaths (posix_host ''/'')
     [exampleModule ''a/b.js'', exampleModule ''./a//b.js'', exampleModule ''A/B.JS''] 0 Map.empty ! 2
     = ''A/B.3.JS''
   \<and> choosePaths (posix_host ''/'')
       [exampleModule ''a/b.js'', exampleModule ''/$bunfs/root/a/b.js''] 0 Map.empty
     = [''a/b.js'', ''a/b.2.js'']"
proof -
  let ?h = "posix_host ''/''"
  let ?ms = "[exampleModule ''a/b.js'', exampleModule ''./a//b.js'', exampleModule ''A/B.JS'']"
  have j: "2 < length ?ms" by simp
  have v: "(let fps = finalPaths ?h ?ms 0;
                n = count_list (map (toLowerCase ?h) (take 2 fps)) (toLowerCase ?h (fps ! 2))
            in if n = 0 then fps ! 2 else suffixed ?h (fps ! 2) (Suc n)) = ''A/B.3.JS''"
    by code_simp
  have a: "finalPathOf ?h (exampleModule ''a/b.js'') 0 = ''a/b.js''
           \<and> finalPathOf ?h (exampleModule ''/$bunfs/root/a/b.js'') 1 = ''a/b.js''
           \<and> path_extname ?h ''a/b.js'' = ''.js''"
    by code_simp
  from C5_collision_suffix [of 2 ?ms ?h "exampleModule ''a/b.js''" "exampleModule ''/$bunfs/root/a/b.js''"]
  show ?thesis using j v a by simp
qed

subsection \<open>The writer's loop\<close>

text \<open>
  The loop in closed form: with \<open>k\<close> the number of leading modules whose target path
  passes the check of line 292, the loop makes the calls of these \<open>k\<close> modules, pushes
  their entries, and throws at module \<open>k\<close> if there is one.
\<close>

lemma writeModules_closed:
  "writeModules h out outSep ms i used =
     (let ps = choosePaths h ms i used;
          ts = map (\<lambda>p. path_resolve h [out, p]) ps;
          k = length (takeWhile (insideOutput out outSep) ts)
      in (allModuleWrites h (take k ts) (take k ms),
          allModuleMeta i (take k ms) ps,
          if k < length ms then Some (PathOutOfBounds (ts ! k)) else None))"
proof (induction ms arbitrary: i used)
  case Nil
  then show ?case by (simp add: allModuleWrites_def)
next
  case (Cons m ms)
  obtain p used' where c: "chooseRelativePath h m i used = (p, used')"
    by (cases "chooseRelativePath h m i used")
  show ?case
  proof (cases "insideOutput out outSep (path_resolve h [out, p])")
    case False
    then show ?thesis
      using c by (simp add: insideOutput_def allModuleWrites_def)
  next
    case True
    then show ?thesis
      using c Cons.IH [of "Suc i" used']
      by (simp add: insideOutput_def allModuleWrites_def Let_def split: prod.splits)
  qed
qed

lemma allModuleMeta_length: "length (allModuleMeta i ms ps) = min (length ms) (length ps)"
  by (induction i ms ps rule: allModuleMeta.induct) auto

lemma allModuleMeta_nth:
  "j < length ms \<Longrightarrow> j < length ps \<Longrightarrow>
   allModuleMeta i ms ps ! j = moduleMeta (i + j) (ms ! j) (ps ! j)"
proof (induction i ms ps arbitrary: j rule: allModuleMeta.induct)
  case (1 i m ms p ps)
  then show ?case by (cases j) auto
qed auto

lemma allModuleWrites_sub:
  "j < length ms \<Longrightarrow> j < length ts \<Longrightarrow>
   set (moduleWrites h (ts ! j) (ms ! j)) \<subseteq> set (allModuleWrites h ts ms)"
  unfolding allModuleWrites_def
  by (auto simp: set_zip intro!: exI [of _ j])

lemma targetPaths_length [simp]: "length (targetPaths h out ms) = length ms"
  by (simp add: targetPaths_def)

lemma writeOutputs_closed:
  "writeOutputs h parsed outputDir =
     (let resolvedOutput = path_resolve h [outputDir];
          withSep = ensureTrailingSep h resolvedOutput;
          ms = modules parsed;
          ts = targetPaths h resolvedOutput ms;
          k = length (takeWhile (insideOutput resolvedOutput withSep) ts)
      in if k < length ms
         then (Mkdir resolvedOutput # allModuleWrites h (take k ts) (take k ms),
               Some (PathOutOfBounds (ts ! k)))
         else (Mkdir resolvedOutput # allModuleWrites h ts ms
                 @ closingWrites h resolvedOutput parsed
                     (allModuleMeta 0 ms (choosePaths h ms 0 Map.empty)),
               None))"
proof -
  have "length (takeWhile P (targetPaths h out (modules parsed))) \<le> length (modules parsed)"
    for P out
    using length_takeWhile_le [of P "targetPaths h out (modules parsed)"] by simp
  then show ?thesis
    by (simp add: writeOutputs_def writeModules_closed targetPaths_def Let_def)
qed

text \<open>
  C4. The paths chosen are not always distinct: a path with a suffix is not entered in
  \<open>used\<close>, so a later module whose own path is that very name takes it again. For the
  three modules \<open>A.js\<close>, \<open>a.js\<close>, \<open>a.2.js\<close> the second and the third are both written to
  \<open>a.2.js\<close>: the run makes three content writes to two files, and the manifest lists the
  same relative path twice.
\<close>

theorem C4_paths_collide:
  "choosePaths (posix_host ''/w'')
     [(exampleModule ''A.js'')\<lparr>contents := [1]\<rparr>,
      (exampleModule ''a.js'')\<lparr>contents := [2]\<rparr>,
      (exampleModule ''a.2.js'')\<lparr>contents := [3]\<rparr>] 0 Map.empty
   = [''A.js'', ''a.2.js'', ''a.2.js'']
   \<and> fst (writeOutputs (posix_host ''/w'')
       \<lparr>modules = [(exampleModule ''A.js'')\<lparr>contents := [1]\<rparr>,
                   (exampleModule ''a.js'')\<lparr>contents := [2]\<rparr>,
                   (exampleModule ''a.2.js'')\<lparr>contents := [3]\<rparr>],
        entryPointId = 0, compileExecArgv = ''''\<rparr> ''out'')
     = [Mkdir ''/w/out'',
        Mkdir ''/w/out'', WriteFile ''/w/out/A.js'' (Bytes [1]),
        Mkdir ''/w/out'', WriteFile ''/w/out/a.2.js'' (Bytes [2]),
        Mkdir ''/w/out'', WriteFile ''/w/out/a.2.js'' (Bytes [3]),
        WriteFile ''/w/out/metadata.json''
          (Json \<lparr>modules_m =
                    [moduleMeta 0 ((exampleModule ''A.js'')\<lparr>contents := [1]\<rparr>) ''A.js'',
                     moduleMeta 1 ((exampleModule ''a.js'')\<lparr>contents := [2]\<rparr>) ''a.2.js'',
                     moduleMeta 2 ((exampleModule ''a.2.js'')\<lparr>contents := [3]\<rparr>) ''a.2.js''],
                  entryPointId_m = 0, compileExecArgv_m = ''''\<rparr>)]"
  by code_simp

subsection \<open>Byte access and the search for the trailer\<close>

lemma matchesAt_iff:
  assumes "i + length needle \<le> length haystack"
  shows "matchesAt haystack needle i \<longleftrightarrow> subarray haystack i (i + length needle) = needle"
proof -
  let ?sub = "subarray haystack i (i + length needle)"
  have len: "length ?sub = length needle"
    using assms by (simp add: subarray_def)
  have nth: "?sub ! j = haystack ! (i + j)" if "j < length needle" for j
    using assms that by (simp add: subarray_def)
  have "matchesAt haystack needle i \<longleftrightarrow> (\<forall>j<length needle. ?sub ! j = needle ! j)"
    by (auto simp: matchesAt_def list_all_iff nth)
  also have "\<dots> \<longleftrightarrow> ?sub = needle"
    using len by (simp add: list_eq_iff_nth_eq)
  finally show ?thesis .
qed

lemma scanBack_none: "scanBack h n k = - 1 \<longleftrightarrow> (\<forall>i\<le>k. \<not> matchesAt h n i)"
  by (induction k) (auto simp: le_Suc_eq)

lemma scanBack_some:
  "scanBack h n k \<noteq> - 1 \<Longrightarrow>
   0 \<le> scanBack h n k \<and> nat (scanBack h n k) \<le> k \<and> matchesAt h n (nat (scanBack h n k))
   \<and> (\<forall>i. nat (scanBack h n k) < i \<and> i \<le> k \<longrightarrow> \<not> matchesAt h n i)"
proof -
  have [simp]: "nat (1 + int j) = Suc j" for j by simp
  show "scanBack h n k \<noteq> - 1 \<Longrightarrow> ?thesis"
    by (induction k) (auto simp: le_Suc_eq split: if_splits)
qed

text \<open>\<open>lastIndexOfSubarray\<close> returns \<open>-1\<close> exactly when the needle occurs nowhere.\<close>

lemma lastIndexOfSubarray_none:
  "needle \<noteq> [] \<Longrightarrow>
   lastIndexOfSubarray haystack needle = - 1 \<longleftrightarrow>
     \<not> (\<exists>i. i + length needle \<le> length haystack
            \<and> subarray haystack i (i + length needle) = needle)"
proof (cases "length haystack < length needle")
  case True
  then show ?thesis by (auto simp: lastIndexOfSubarray_def)
next
  case False
  assume ne: "needle \<noteq> []"
  have "(\<forall>i\<le>length haystack - length needle. \<not> matchesAt haystack needle i)
        \<longleftrightarrow> \<not> (\<exists>i. i + length needle \<le> length haystack
            \<and> subarray haystack i (i + length needle) = needle)"
    using False by (auto simp: matchesAt_iff)
  then show ?thesis using False ne by (simp add: lastIndexOfSubarray_def scanBack_none)
qed

lemma le_value_bound: "le_value bs < 256 ^ length bs"
proof (induction bs)
  case Nil
  then show ?case by (simp add: le_value_def)
next
  case (Cons b bs)
  have "unat b < 256" using unsigned_less [of b, where 'a = nat] by simp
  then show ?case using Cons by (simp add: le_value_def)
qed

lemma getUint_Inr:
  "off + n \<le> length view \<Longrightarrow> getUint n view off = Inr (le_value (subarray view off (off + n)))"
  by (simp add: getUint_def subarray_def take_drop add.commute)

subsection \<open>Container locator\<close>

lemma extractTrailerAppendedBlob_total: "\<exists>r. extractTrailerAppendedBlob fileBytes = Inr r"
proof (cases "length fileBytes < length TRAILER_BYTES + OFFSETS_SIZE + 8")
  case True
  then show ?thesis by (simp add: extractTrailerAppendedBlob_def)
next
  case False
  then have "length fileBytes - 8 + 8 \<le> length fileBytes" by simp
  then have "getBigUint64 fileBytes (length fileBytes - 8)
             = Inr (le_value (subarray fileBytes (length fileBytes - 8) (length fileBytes - 8 + 8)))"
    unfolding getBigUint64_def by (rule getUint_Inr)
  then show ?thesis
    by (simp add: extractTrailerAppendedBlob_def Let_def)
qed

lemma TRAILER_BYTES_length: "length TRAILER_BYTES = 16"
  by (simp add: TRAILER_BYTES_def)

text \<open>
  C7. The fallback is tried only when \<open>extractBunSection\<close> throws, and its result decides
  the outcome then. With \<open>total\<close> the little-endian value of the last 8 bytes of the
  file and \<open>start = fileLength - 8 - total\<close>, the fallback returns no payload when
  \<open>total\<close> is zero, exceeds the file length or the safe-integer range, when \<open>start\<close> is
  negative, or when the candidate \<open>file[start : fileLength - 8]\<close> does not hold the
  trailer; a payload it returns is that candidate. It never throws.
\<close>

theorem C7_trailing_blob_fallback:
  "(extractBunSection h fileBytes = Inr section \<longrightarrow> extractEmbeddedData h fileBytes = Inr section)
   \<and> (extractBunSection h fileBytes = Inl peErr \<longrightarrow>
        extractEmbeddedData h fileBytes =
          (case extractTrailerAppendedBlob fileBytes of
             Inr (Some blob) \<Rightarrow> Inr blob
           | Inr None \<Rightarrow> Inl (NoEmbeddedData peErr)
           | Inl e \<Rightarrow> Inl e))
   \<and> (\<exists>r. extractTrailerAppendedBlob fileBytes = Inr r)
   \<and> (let n = length fileBytes;
          total = le_value (subarray fileBytes (n - 8) n);
          start = int n - 8 - int total;
          candidate = subarray fileBytes (nat start) (n - 8)
      in (total = 0 \<or> total > n \<or> total > MAX_SAFE_INTEGER \<or> start < 0
            \<or> \<not> (\<exists>i. i + length TRAILER_BYTES \<le> length candidate
                      \<and> subarray candidate i (i + length TRAILER_BYTES) = TRAILER_BYTES)
          \<longrightarrow> extractTrailerAppendedBlob fileBytes = Inr None)
         \<and> (\<forall>blob. extractTrailerAppendedBlob fileBytes = Inr (Some blob) \<longrightarrow> blob = candidate))"
proof -
  have a: "extractBunSection h fileBytes = Inr section \<longrightarrow> extractEmbeddedData h fileBytes = Inr section"
    by (simp add: extractEmbeddedData_def)
  have b: "extractBunSection h fileBytes = Inl peErr \<longrightarrow>
        extractEmbeddedData h fileBytes =
          (case extractTrailerAppendedBlob fileBytes of
             Inr (Some blob) \<Rightarrow> Inr blob
           | Inr None \<Rightarrow> Inl (NoEmbeddedData peErr)
           | Inl e \<Rightarrow> Inl e)"
    by (simp add: extractEmbeddedData_def bindE_def split: sum.splits option.splits)
  have ne: "TRAILER_BYTES \<noteq> []" by (simp add: TRAILER_BYTES_def)
  have d: "(let n = length fileBytes;
          total = le_value (subarray fileBytes (n - 8) n);
          start = int n - 8 - int total;
          candidate = subarray fileBytes (nat start) (n - 8)
      in (total = 0 \<or> total > n \<or> total > MAX_SAFE_INTEGER \<or> start < 0
            \<or> \<not> (\<exists>i. i + length TRAILER_BYTES \<le> length candidate
                      \<and> subarray candidate i (i + length TRAILER_BYTES) = TRAILER_BYTES)
          \<longrightarrow> extractTrailerAppendedBlob fileBytes = Inr None)
         \<and> (\<forall>blob. extractTrailerAppendedBlob fileBytes = Inr (Some blob) \<longrightarrow> blob = candidate))"
  proof -
    let ?n = "length fileBytes"
    let ?total = "le_value (subarray fileBytes (?n - 8) ?n)"
    let ?start = "int ?n - 8 - int ?total"
    let ?cand = "subarray fileBytes (nat ?start) (?n - 8)"
    have ex: "extractTrailerAppendedBlob fileBytes = Inr None
              \<or> (extractTrailerAppendedBlob fileBytes = Inr (Some ?cand)
                  \<and> ?total \<noteq> 0 \<and> \<not> ?total > ?n \<and> \<not> ?total > MAX_SAFE_INTEGER
                  \<and> \<not> ?start < 0 \<and> lastIndexOfSubarray ?cand TRAILER_BYTES \<noteq> - 1)"
    proof (cases "length fileBytes < length TRAILER_BYTES + OFFSETS_SIZE + 8")
      case True
      then show ?thesis by (simp add: extractTrailerAppendedBlob_def)
    next
      case False
      then have "?n - 8 + 8 \<le> ?n" by simp
      then have "getUint 8 fileBytes (?n - 8)
                 = Inr (le_value (subarray fileBytes (?n - 8) (?n - 8 + 8)))"
        by (rule getUint_Inr)
      then have g: "getBigUint64 fileBytes (?n - 8) = Inr ?total"
        using False by (simp add: getBigUint64_def)
      show ?thesis
        unfolding extractTrailerAppendedBlob_def Let_def g bindE_simps
        by (simp split: if_splits)
    qed
    have none: "lastIndexOfSubarray ?cand TRAILER_BYTES = - 1 \<longleftrightarrow>
                \<not> (\<exists>i. i + length TRAILER_BYTES \<le> length ?cand
                      \<and> subarray ?cand i (i + length TRAILER_BYTES) = TRAILER_BYTES)"
      by (rule lastIndexOfSubarray_none [OF ne])
    show ?thesis
      unfolding Let_def none [symmetric]
      using ex by (elim disjE conjE) simp_all
  qed
  show ?thesis using a b d extractTrailerAppendedBlob_total by blast
qed

theorem C7_trailing_blob_fallback_witness:
  "extractBunSection (posix_host ''/'')
     (le_bytes 8 0 @ exampleBlob [] \<lparr>offset = 0, length' = 0\<rparr> 0 \<lparr>offset = 0, length' = 0\<rparr>
        @ le_bytes 8 48) = Inl NotPE
   \<and> extractEmbeddedData (posix_host ''/'')
       (le_bytes 8 0 @ exampleBlob [] \<lparr>offset = 0, length' = 0\<rparr> 0 \<lparr>offset = 0, length' = 0\<rparr>
          @ le_bytes 8 48)
     = Inr (exampleBlob [] \<lparr>offset = 0, length' = 0\<rparr> 0 \<lparr>offset = 0, length' = 0\<rparr>)
   \<and> extractTrailerAppendedBlob
       (le_bytes 8 0 @ exampleBlob [] \<lparr>offset = 0, length' = 0\<rparr> 0 \<lparr>offset = 0, length' = 0\<rparr>
          @ le_bytes 8 0)
     = Inr None"
proof -
  let ?h = "posix_host ''/''"
  let ?b = "exampleBlob [] \<lparr>offset = 0, length' = 0\<rparr> 0 \<lparr>offset = 0, length' = 0\<rparr>"
  let ?f = "le_bytes 8 0 @ ?b @ le_bytes 8 48"
  let ?g = "le_bytes 8 0 @ ?b @ le_bytes 8 0"
  let ?B = "[0, 0, 0, 0, 0, 0, 0, 0, 0, 0, 0, 0, 0, 0, 0, 0, 0, 0, 0, 0, 0, 0, 0, 0, 0, 0,
       0, 0, 0, 0, 0, 0, 10, 45, 45, 45, 45, 32, 66, 117, 110, 33, 32, 45, 45, 45, 45,
       10] :: byte list"
  let ?F = "[0, 0, 0, 0, 0, 0, 0, 0, 0, 0, 0, 0, 0, 0, 0, 0, 0, 0, 0, 0, 0, 0, 0, 0, 0, 0,
       0, 0, 0, 0, 0, 0, 0, 0, 0, 0, 0, 0, 0, 0, 10, 45, 45, 45, 45, 32, 66, 117, 110,
       33, 32, 45, 45, 45, 45, 10, 48, 0, 0, 0, 0, 0, 0, 0] :: byte list"
  let ?G = "[0, 0, 0, 0, 0, 0, 0, 0, 0, 0, 0, 0, 0, 0, 0, 0, 0, 0, 0, 0, 0, 0, 0, 0, 0, 0,
       0, 0, 0, 0, 0, 0, 0, 0, 0, 0, 0, 0, 0, 0, 10, 45, 45, 45, 45, 32, 66, 117, 110,
       33, 32, 45, 45, 45, 45, 10, 0, 0, 0, 0, 0, 0, 0, 0] :: byte list"
  have b: "?b = ?B"
    by (simp add: exampleBlob_def le_bytes_def upt_rec TRAILER_BYTES_def)
  have f: "le_bytes 8 0 @ ?B @ le_bytes 8 48 = ?F"
    by (simp add: le_bytes_def upt_rec)
  have g: "le_bytes 8 0 @ ?B @ le_bytes 8 0 = ?G"
    by (simp add: le_bytes_def upt_rec)
  have pe: "extractBunSection ?h ?F = Inl NotPE"
    by (simp add: extractBunSection_def getUint16_def getUint_def le_value_def)
  have lf: "lastIndexOfSubarray ?F TRAILER_BYTES = 40" by code_simp
  have lb: "lastIndexOfSubarray ?B TRAILER_BYTES = 32" by code_simp
  have fb: "extractTrailerAppendedBlob ?F = Inr (Some ?B)"
    by (simp add: extractTrailerAppendedBlob_def lf lb getBigUint64_def getUint_def le_value_def
        subarray_def OFFSETS_SIZE_def MAX_SAFE_INTEGER_def TRAILER_BYTES_length)
  have z: "le_value (subarray ?G (length ?G - 8) (length ?G)) = 0"
    by (simp add: le_value_def subarray_def)
  from C7_trailing_blob_fallback [of ?h ?F undefined NotPE]
  have 1: "extractEmbeddedData ?h ?F = Inr ?B" using pe fb by simp
  from C7_trailing_blob_fallback [of ?h ?G undefined NotPE]
  have 2: "extractTrailerAppendedBlob ?G = Inr None" using z by (simp add: Let_def)
  show ?thesis unfolding b f g using pe 1 2 by simp
qed

subsection \<open>Bundle parser\<close>

text \<open>
  Once the module table lies inside the payload, every record's pointer block does too,
  so \<open>readPointerFromPayload\<close> cannot throw, and the only error left to the record loop
  is the one of \<open>slicePointer\<close>.
\<close>

lemma readPointerFromPayload_Inr:
  "off + 8 \<le> length payload \<Longrightarrow> readPointerFromPayload payload off = Inr (rawPointer payload off)"
proof -
  assume a: "off + 8 \<le> length payload"
  let ?view = "take 8 (drop off payload)"
  have g0: "getUint32 ?view 0 = Inr (le_value (subarray payload off (off + 4)))"
    using a by (simp add: getUint32_def getUint_def subarray_def take_drop add.commute
        min_def)
  have g4: "getUint32 ?view 4 = Inr (le_value (subarray payload (off + 4) (off + 8)))"
    using a by (simp add: getUint32_def getUint_def subarray_def take_drop add.commute
        add.left_commute min_def)
  show ?thesis
    using a by (simp add: readPointerFromPayload_def Let_def g0 g4 rawPointer_def)
qed

lemma subarray_empty [simp]: "subarray xs b b = []"
  by (simp add: subarray_def)

lemma slicePointer_cases:
  "slicePointer payload ptr =
     (if pointerOk payload ptr
      then Inr (subarray payload (offset ptr) (offset ptr + length' ptr))
      else Inl StringPointerOutOfRange)"
  by (auto simp: slicePointer_def pointerOk_def pointerInRange_def Let_def)

lemma decodeUtf8_cases:
  "decodeUtf8 h payload ptr =
     (if pointerOk payload ptr
      then Inr (if length' ptr = 0 then ''''
                else textDecoder_decode h (subarray payload (offset ptr) (offset ptr + length' ptr)))
      else Inl StringPointerOutOfRange)"
  by (auto simp: decodeUtf8_def slicePointer_def pointerOk_def pointerInRange_def Let_def)

lemma readModule_cases:
  assumes "base + 32 \<le> length payload"
  shows "readModule h payload base =
     (if list_all (pointerOk payload) (recordPointers payload base)
      then Inr (decodeModule h payload base)
      else Inl StringPointerOutOfRange)"
proof -
  have r: "readPointerFromPayload payload base = Inr (rawPointer payload base)"
    "readPointerFromPayload payload (base + 8) = Inr (rawPointer payload (base + 8))"
    "readPointerFromPayload payload (base + 16) = Inr (rawPointer payload (base + 16))"
    "readPointerFromPayload payload (base + 24) = Inr (rawPointer payload (base + 24))"
    using assms by (simp_all add: readPointerFromPayload_Inr)
  have z: "pointerOk payload p" if "length' p = 0" for p
    using that by (simp add: pointerOk_def)
  show ?thesis
    unfolding readModule_def r bindE_simps Let_def slicePointer_cases decodeUtf8_cases
      recordPointers_def decodeModule_def
    by (simp add: z)
qed

lemma readModules_cases:
  assumes "\<forall>i\<in>set is. offset mp + i * rs + 32 \<le> length payload"
  shows "readModules h payload mp rs is =
     (if \<forall>i\<in>set is. list_all (pointerOk payload) (recordPointers payload (offset mp + i * rs))
      then Inr (map (\<lambda>i. decodeModule h payload (offset mp + i * rs)) is)
      else Inl StringPointerOutOfRange)"
  using assms
proof (induction "is")
  case Nil
  then show ?case by simp
next
  case (Cons i "is")
  then show ?case by (simp add: readModule_cases)
qed

lemma selectRecordSize_cases:
  "selectRecordSize mp =
     (if length' mp mod 40 = 0 then Inr 40
      else if length' mp mod 36 = 0 then Inr 36
      else Inl UnknownRecordSize)"
  by (simp add: selectRecordSize_def MODULE_RECORD_SIZE_def Let_def)

lemma record_in_range:
  assumes rs: "32 \<le> rs" and dvd: "len mod rs = 0" and i: "i < len div rs"
    and e: "off + len \<le> n"
  shows "off + i * rs + 32 \<le> (n::nat)"
proof -
  have "Suc i * rs \<le> (len div rs) * rs"
    using i by (intro mult_le_mono1) simp
  also have "\<dots> = len" using dvd by (simp add: mod_0_imp_dvd)
  finally have "i * rs + rs \<le> len" by simp
  then show ?thesis using rs e by linarith
qed

lemma parseRecords_cases:
  assumes "rs = 36 \<or> rs = 40" and "length' mp mod rs = 0"
    and "offset mp + length' mp \<le> length payload"
  shows "parseRecords h payload mp ep ap rs =
     (if list_all (pointerOk payload) (referencedPointers payload mp rs ap)
      then Inr \<lparr>modules = map (\<lambda>i. decodeModule h payload (offset mp + i * rs))
                             [0..<length' mp div rs],
                entryPointId = ep,
                compileExecArgv =
                  (if length' ap = 0 then ''''
                   else textDecoder_decode h
                          (subarray payload (offset ap) (offset ap + length' ap)))\<rparr>
      else Inl StringPointerOutOfRange)"
proof -
  have "32 \<le> rs" using assms(1) by auto
  then have inr: "\<forall>i\<in>set [0..<length' mp div rs]. offset mp + i * rs + 32 \<le> length payload"
    using record_in_range [OF _ assms(2) _ assms(3)] by simp
  show ?thesis
    unfolding parseRecords_def Let_def readModules_cases [OF inr] decodeUtf8_cases
      referencedPointers_def
    by (simp add: list_all_iff)
qed

lemma parseStandalone_cases:
  assumes "readOffsetTable blob = Inr (bc, mp, ep, ap)"
  shows "parseStandalone h blob =
     (if bc > length blob then Inl ByteCountOutOfRange
      else if offset mp + length' mp > bc then Inl ModuleTableOutOfRange
      else bindE (selectRecordSize mp) (parseRecords h (subarray blob 0 bc) mp ep ap))"
  by (simp add: parseStandalone_def assms subarray_def Let_def)

text \<open>
  C6. Once the offset table is read and the module table lies inside the payload: if
  the length of the module table is a multiple of 40, the records are parsed with
  stride 40; otherwise, if it is a multiple of 36, with stride 36, and the parse succeeds
  with one module for each 36 bytes, read at \<open>offset + i * 36\<close>, when no pointer of the
  bundle is out of range; if neither width divides the length, the parse fails with the
  unknown-record-size error.
\<close>

theorem C6_record_stride:
  "readOffsetTable blob = Inr (byteCount, modulesPtr, entryId, argvPtr) \<Longrightarrow>
   byteCount \<le> length blob \<Longrightarrow>
   offset modulesPtr + length' modulesPtr \<le> byteCount \<Longrightarrow>
   (let payload = subarray blob 0 byteCount in
    (length' modulesPtr mod 40 = 0 \<longrightarrow>
       parseStandalone h blob = parseRecords h payload modulesPtr entryId argvPtr 40)
    \<and> (length' modulesPtr mod 40 \<noteq> 0 \<and> length' modulesPtr mod 36 = 0 \<longrightarrow>
         parseStandalone h blob = parseRecords h payload modulesPtr entryId argvPtr 36
         \<and> (list_all (pointerOk payload) (referencedPointers payload modulesPtr 36 argvPtr) \<longrightarrow>
              (\<exists>parsed. parseStandalone h blob = Inr parsed
                 \<and> modules parsed
                     = map (\<lambda>i. decodeModule h payload (offset modulesPtr + i * 36))
                         [0..<length' modulesPtr div 36])))
    \<and> (length' modulesPtr mod 40 \<noteq> 0 \<and> length' modulesPtr mod 36 \<noteq> 0 \<longrightarrow>
         parseStandalone h blob = Inl UnknownRecordSize))"
proof -
  assume t: "readOffsetTable blob = Inr (byteCount, modulesPtr, entryId, argvPtr)"
    and bc: "byteCount \<le> length blob"
    and me: "offset modulesPtr + length' modulesPtr \<le> byteCount"
  let ?payload = "subarray blob 0 byteCount"
  have len: "length ?payload = byteCount" using bc by (simp add: subarray_def)
  have p: "parseStandalone h blob
           = bindE (selectRecordSize modulesPtr) (parseRecords h ?payload modulesPtr entryId argvPtr)"
    using bc me by (simp add: parseStandalone_cases [OF t])
  have a: "length' modulesPtr mod 40 = 0 \<longrightarrow>
       parseStandalone h blob = parseRecords h ?payload modulesPtr entryId argvPtr 40"
    by (simp add: p selectRecordSize_cases)
  have b: "length' modulesPtr mod 40 \<noteq> 0 \<and> length' modulesPtr mod 36 = 0 \<longrightarrow>
         parseStandalone h blob = parseRecords h ?payload modulesPtr entryId argvPtr 36"
    by (simp add: p selectRecordSize_cases)
  have c: "length' modulesPtr mod 40 \<noteq> 0 \<and> length' modulesPtr mod 36 = 0 \<longrightarrow>
       list_all (pointerOk ?payload) (referencedPointers ?payload modulesPtr 36 argvPtr) \<longrightarrow>
              (\<exists>parsed. parseStandalone h blob = Inr parsed
                 \<and> modules parsed
                     = map (\<lambda>i. decodeModule h ?payload (offset modulesPtr + i * 36))
                         [0..<length' modulesPtr div 36])"
  proof (intro impI)
    assume m: "length' modulesPtr mod 40 \<noteq> 0 \<and> length' modulesPtr mod 36 = 0"
      and ok: "list_all (pointerOk ?payload) (referencedPointers ?payload modulesPtr 36 argvPtr)"
    have "parseStandalone h blob = parseRecords h ?payload modulesPtr entryId argvPtr 36"
      using b m by simp
    also have "\<dots> = Inr \<lparr>modules = map (\<lambda>i. decodeModule h ?payload (offset modulesPtr + i * 36))
                             [0..<length' modulesPtr div 36],
                entryPointId = entryId,
                compileExecArgv =
                  (if length' argvPtr = 0 then ''''
                   else textDecoder_decode h
                          (subarray ?payload (offset argvPtr) (offset argvPtr + length' argvPtr)))\<rparr>"
      using parseRecords_cases [of 36 modulesPtr ?payload h entryId argvPtr] m me ok len by simp
    finally show "\<exists>parsed. parseStandalone h blob = Inr parsed
                 \<and> modules parsed
                     = map (\<lambda>i. decodeModule h ?payload (offset modulesPtr + i * 36))
                         [0..<length' modulesPtr div 36]"
      by simp
  qed
  have d: "length' modulesPtr mod 40 \<noteq> 0 \<and> length' modulesPtr mod 36 \<noteq> 0 \<longrightarrow>
         parseStandalone h blob = Inl UnknownRecordSize"
    by (simp add: p selectRecordSize_cases)
  show ?thesis unfolding Let_def using a b c d by auto
qed

lemma replicate_numeral: "replicate (numeral k) x = x # replicate (pred_numeral k) x"
  by (simp add: numeral_eq_Suc)

theorem C6_record_stride_witness:
  "parseStandalone (posix_host ''/'')
     (exampleBlob
        (exampleRecord \<lparr>offset = 36, length' = 4\<rparr> \<lparr>offset = 40, length' = 3\<rparr>
           \<lparr>offset = 0, length' = 0\<rparr> \<lparr>offset = 0, length' = 0\<rparr> 36
         @ [97, 46, 106, 115] @ [1, 2, 3])
        \<lparr>offset = 0, length' = 36\<rparr> 0 \<lparr>offset = 0, length' = 0\<rparr>)
   = Inr \<lparr>modules = [\<lparr>originalPath = ''a.js'', contents = [1, 2, 3], sourcemap = None,
                        bytecode = None, encoding = 0, loader = 1, moduleFormat = 0,
                        side = 0\<rparr>],
           entryPointId = 0, compileExecArgv = ''''\<rparr>
   \<and> parseStandalone (posix_host ''/'')
       (exampleBlob
          (exampleRecord \<lparr>offset = 0, length' = 0\<rparr> \<lparr>offset = 0, length' = 0\<rparr>
             \<lparr>offset = 0, length' = 0\<rparr> \<lparr>offset = 0, length' = 0\<rparr> 40)
          \<lparr>offset = 0, length' = 40\<rparr> 7 \<lparr>offset = 0, length' = 0\<rparr>)
     = Inr \<lparr>modules = [\<lparr>originalPath = '''', contents = [], sourcemap = None,
                          bytecode = None, encoding = 0, loader = 1, moduleFormat = 0,
                          side = 0\<rparr>],
             entryPointId = 7, compileExecArgv = ''''\<rparr>
   \<and> parseStandalone (posix_host ''/'')
       (exampleBlob (replicate 50 0) \<lparr>offset = 0, length' = 50\<rparr> 0 \<lparr>offset = 0, length' = 0\<rparr>)
     = Inl UnknownRecordSize"
proof -
  let ?h = "posix_host ''/''"
  let ?z = "\<lparr>offset = 0, length' = 0\<rparr>"
  let ?B36 = "[36, 0, 0, 0, 4, 0, 0, 0, 40, 0, 0, 0, 3, 0, 0, 0, 0, 0, 0, 0, 0, 0, 0, 0, 0, 0,
       0, 0, 0, 0, 0, 0, 0, 1, 0, 0, 97, 46, 106, 115, 1, 2, 3, 43, 0, 0, 0, 0, 0, 0,
       0, 0, 0, 0, 0, 36, 0, 0, 0, 0, 0, 0, 0, 0, 0, 0, 0, 0, 0, 0, 0, 0, 0, 0, 0, 10,
       45, 45, 45, 45, 32, 66, 117, 110, 33, 32, 45, 45, 45, 45, 10] :: byte list"
  let ?P36 = "[36, 0, 0, 0, 4, 0, 0, 0, 40, 0, 0, 0, 3, 0, 0, 0, 0, 0, 0, 0, 0, 0, 0, 0, 0, 0,
       0, 0, 0, 0, 0, 0, 0, 1, 0, 0, 97, 46, 106, 115, 1, 2, 3] :: byte list"
  let ?B40 = "[0, 0, 0, 0, 0, 0, 0, 0, 0, 0, 0, 0, 0, 0, 0, 0, 0, 0, 0, 0, 0, 0, 0, 0, 0, 0,
       0, 0, 0, 0, 0, 0, 0, 1, 0, 0, 0, 0, 0, 0, 40, 0, 0, 0, 0, 0, 0, 0, 0, 0, 0, 0,
       40, 0, 0, 0, 7, 0, 0, 0, 0, 0, 0, 0, 0, 0, 0, 0, 0, 0, 0, 0, 10, 45, 45, 45,
       45, 32, 66, 117, 110, 33, 32, 45, 45, 45, 45, 10] :: byte list"
  let ?P40 = "[0, 0, 0, 0, 0, 0, 0, 0, 0, 0, 0, 0, 0, 0, 0, 0, 0, 0, 0, 0, 0, 0, 0, 0, 0, 0,
       0, 0, 0, 0, 0, 0, 0, 1, 0, 0, 0, 0, 0, 0] :: byte list"
  let ?B50 = "[0, 0, 0, 0, 0, 0, 0, 0, 0, 0, 0, 0, 0, 0, 0, 0, 0, 0, 0, 0, 0, 0, 0, 0, 0, 0,
       0, 0, 0, 0, 0, 0, 0, 0, 0, 0, 0, 0, 0, 0, 0, 0, 0, 0, 0, 0, 0, 0, 0, 0, 50, 0,
       0, 0, 0, 0, 0, 0, 0, 0, 0, 0, 50, 0, 0, 0, 0, 0, 0, 0, 0, 0, 0, 0, 0, 0, 0, 0,
       0, 0, 0, 0, 10, 45, 45, 45, 45, 32, 66, 117, 110, 33, 32, 45, 45, 45, 45, 10] :: byte list"
  have e36: "exampleBlob
        (exampleRecord \<lparr>offset = 36, length' = 4\<rparr> \<lparr>offset = 40, length' = 3\<rparr> ?z ?z 36
         @ [97, 46, 106, 115] @ [1, 2, 3])
        \<lparr>offset = 0, length' = 36\<rparr> 0 ?z = ?B36"
    by (simp add: exampleBlob_def exampleRecord_def le_bytes_def upt_rec TRAILER_BYTES_def)
  have e40: "exampleBlob (exampleRecord ?z ?z ?z ?z 40) \<lparr>offset = 0, length' = 40\<rparr> 7 ?z = ?B40"
    by (simp add: exampleBlob_def exampleRecord_def le_bytes_def upt_rec TRAILER_BYTES_def
        replicate_numeral)
  have e50: "exampleBlob (replicate 50 0) \<lparr>offset = 0, length' = 50\<rparr> 0 ?z = ?B50"
    by (simp add: exampleBlob_def le_bytes_def upt_rec TRAILER_BYTES_def replicate_numeral)
  have l36: "lastIndexOfSubarray ?B36 TRAILER_BYTES = 75" by code_simp
  have l40: "lastIndexOfSubarray ?B40 TRAILER_BYTES = 72" by code_simp
  have l50: "lastIndexOfSubarray ?B50 TRAILER_BYTES = 82" by code_simp
  have t36: "readOffsetTable ?B36 = Inr (43, \<lparr>offset = 0, length' = 36\<rparr>, 0, ?z)"
    by (simp add: readOffsetTable_def l36 TRAILER_BYTES_length OFFSETS_SIZE_def
        MAX_SAFE_INTEGER_def getBigUint64_def getUint32_def getUint_def readPointer_def
        le_value_def)
  have t40: "readOffsetTable ?B40 = Inr (40, \<lparr>offset = 0, length' = 40\<rparr>, 7, ?z)"
    by (simp add: readOffsetTable_def l40 TRAILER_BYTES_length OFFSETS_SIZE_def
        MAX_SAFE_INTEGER_def getBigUint64_def getUint32_def getUint_def readPointer_def
        le_value_def)
  have t50: "readOffsetTable ?B50 = Inr (50, \<lparr>offset = 0, length' = 50\<rparr>, 0, ?z)"
    by (simp add: readOffsetTable_def l50 TRAILER_BYTES_length OFFSETS_SIZE_def
        MAX_SAFE_INTEGER_def getBigUint64_def getUint32_def getUint_def readPointer_def
        le_value_def)
  have p36: "subarray ?B36 0 43 = ?P36" by (simp add: subarray_def)
  have p40: "subarray ?B40 0 40 = ?P40" by (simp add: subarray_def)
  have d: "textDecoder_decode ?h [97, 46, 106, 115] = ''a.js''" by code_simp
  have r36: "parseRecords ?h ?P36 \<lparr>offset = 0, length' = 36\<rparr> 0 ?z 36
     = Inr \<lparr>modules = [\<lparr>originalPath = ''a.js'', contents = [1, 2, 3], sourcemap = None,
                        bytecode = None, encoding = 0, loader = 1, moduleFormat = 0,
                        side = 0\<rparr>],
           entryPointId = 0, compileExecArgv = ''''\<rparr>"
    by (simp add: parseRecords_def upt_rec readModule_def readPointerFromPayload_def
        getUint32_def getUint_def le_value_def decodeUtf8_def slicePointer_def subarray_def
        byteOr_def d)
  have r40: "parseRecords ?h ?P40 \<lparr>offset = 0, length' = 40\<rparr> 7 ?z 40
     = Inr \<lparr>modules = [\<lparr>originalPath = '''', contents = [], sourcemap = None,
                          bytecode = None, encoding = 0, loader = 1, moduleFormat = 0,
                          side = 0\<rparr>],
             entryPointId = 7, compileExecArgv = ''''\<rparr>"
    by (simp add: parseRecords_def upt_rec readModule_def readPointerFromPayload_def
        getUint32_def getUint_def le_value_def decodeUtf8_def slicePointer_def subarray_def
        byteOr_def)
  from C6_record_stride [OF t36, of ?h]
  have 1: "parseStandalone ?h ?B36 = Inr \<lparr>modules = [\<lparr>originalPath = ''a.js'', contents = [1, 2, 3], sourcemap = None,
                        bytecode = None, encoding = 0, loader = 1, moduleFormat = 0,
                        side = 0\<rparr>],
           entryPointId = 0, compileExecArgv = ''''\<rparr>"
    by (simp add: Let_def p36 r36)
  from C6_record_stride [OF t40, of ?h]
  have 2: "parseStandalone ?h ?B40 = Inr \<lparr>modules = [\<lparr>originalPath = '''', contents = [], sourcemap = None,
                          bytecode = None, encoding = 0, loader = 1, moduleFormat = 0,
                          side = 0\<rparr>],
             entryPointId = 7, compileExecArgv = ''''\<rparr>"
    by (simp add: Let_def p40 r40)
  from C6_record_stride [OF t50, of ?h]
  have 3: "parseStandalone ?h ?B50 = Inl UnknownRecordSize"
    by (simp add: Let_def)
  show ?thesis unfolding e36 e40 e50 using 1 2 3 by simp
qed

subsection \<open>The run as a whole\<close>

lemma main_parse_error:
  "extractEmbeddedData h exeBytes = Inr blob \<Longrightarrow> parseStandalone h blob = Inl e \<Longrightarrow>
   main h exeBytes outputArg = ([], Some e)"
  by (simp add: main_def)

lemma parsed_modules:
  assumes t: "readOffsetTable blob = Inr (byteCount, modulesPtr, entryId, argvPtr)"
    and rs: "selectRecordSize modulesPtr = Inr recordSize"
    and p: "parseStandalone h blob = Inr parsed"
  shows "modules parsed
         = map (\<lambda>i. decodeModule h (subarray blob 0 byteCount) (offset modulesPtr + i * recordSize))
             [0..<length' modulesPtr div recordSize]"
proof -
  let ?payload = "subarray blob 0 byteCount"
  have bc: "byteCount \<le> length blob" and me: "offset modulesPtr + length' modulesPtr \<le> byteCount"
    using p parseStandalone_cases [OF t, of h] by (auto split: if_splits)
  have len: "length ?payload = byteCount" using bc by (simp add: subarray_def)
  have r: "(recordSize = 36 \<or> recordSize = 40) \<and> length' modulesPtr mod recordSize = 0"
    using rs by (auto simp: selectRecordSize_cases split: if_splits)
  have "parseRecords h ?payload modulesPtr entryId argvPtr recordSize = Inr parsed"
    using p bc me rs by (simp add: parseStandalone_cases [OF t])
  then show ?thesis
    using parseRecords_cases [of recordSize modulesPtr ?payload h entryId argvPtr] r me len
    by (auto split: if_splits)
qed

lemma writeOutputs_completed:
  assumes "writeOutputs h parsed outputDir = (ops, None)"
  shows "ops = Mkdir (path_resolve h [outputDir])
               # allModuleWrites h (targetPaths h (path_resolve h [outputDir]) (modules parsed))
                   (modules parsed)
               @ closingWrites h (path_resolve h [outputDir]) parsed
                   (allModuleMeta 0 (modules parsed) (choosePaths h (modules parsed) 0 Map.empty))"
  using assms writeOutputs_closed [of h parsed outputDir]
  by (auto simp: Let_def split: if_splits)

subsection \<open>The example bundles, evaluated\<close>

lemmas byte_eval =
  getBigUint64_def getUint32_def getUint16_def getUint_def readPointer_def le_value_def
  TRAILER_BYTES_length OFFSETS_SIZE_def MAX_SAFE_INTEGER_def

lemmas record_eval =
  parseRecords_def upt_rec readModule_def readPointerFromPayload_def getUint32_def getUint_def
  le_value_def decodeUtf8_def slicePointer_def subarray_def byteOr_def

lemmas example_eval =
  exampleBlob_def exampleRecord_def le_bytes_def upt_rec TRAILER_BYTES_def replicate_numeral

lemma exampleBundle_literal:
  "exampleBundle = [80, 0, 0, 0, 4, 0, 0, 0, 84, 0, 0, 0, 3, 0, 0, 0, 87, 0, 0, 0, 2, 0, 0, 0, 0,
       0, 0, 0, 0, 0, 0, 0, 0, 1, 0, 0, 0, 0, 0, 0, 89, 0, 0, 0, 4, 0, 0, 0, 160, 15,
       0, 0, 0, 0, 0, 0, 0, 0, 0, 0, 0, 0, 0, 0, 93, 0, 0, 0, 1, 0, 0, 0, 0, 1, 0, 0,
       0, 0, 0, 0, 97, 46, 106, 115, 1, 2, 3, 9, 9, 98, 46, 106, 115, 7, 94, 0, 0, 0,
       0, 0, 0, 0, 0, 0, 0, 0, 80, 0, 0, 0, 0, 0, 0, 0, 0, 0, 0, 0, 0, 0, 0, 0, 0, 0,
       0, 0, 10, 45, 45, 45, 45, 32, 66, 117, 110, 33, 32, 45, 45, 45, 45, 10]"
  by (simp add: exampleBundle_def example_eval)

lemma exampleBundle_length: "length exampleBundle = 142"
  unfolding exampleBundle_literal by simp

lemma exampleBundle_table:
  "readOffsetTable exampleBundle
   = Inr (94, \<lparr>offset = 0, length' = 80\<rparr>, 0, \<lparr>offset = 0, length' = 0\<rparr>)"
proof -
  have l: "lastIndexOfSubarray [80, 0, 0, 0, 4, 0, 0, 0, 84, 0, 0, 0, 3, 0, 0, 0, 87, 0, 0, 0, 2, 0, 0, 0, 0,
       0, 0, 0, 0, 0, 0, 0, 0, 1, 0, 0, 0, 0, 0, 0, 89, 0, 0, 0, 4, 0, 0, 0, 160, 15,
       0, 0, 0, 0, 0, 0, 0, 0, 0, 0, 0, 0, 0, 0, 93, 0, 0, 0, 1, 0, 0, 0, 0, 1, 0, 0,
       0, 0, 0, 0, 97, 46, 106, 115, 1, 2, 3, 9, 9, 98, 46, 106, 115, 7, 94, 0, 0, 0,
       0, 0, 0, 0, 0, 0, 0, 0, 80, 0, 0, 0, 0, 0, 0, 0, 0, 0, 0, 0, 0, 0, 0, 0, 0, 0,
       0, 0, 10, 45, 45, 45, 45, 32, 66, 117, 110, 33, 32, 45, 45, 45, 45, 10] TRAILER_BYTES = 126"
    by code_simp
  show ?thesis
    unfolding exampleBundle_literal by (simp add: readOffsetTable_def l byte_eval)
qed

lemma exampleBundle_payload:
  "subarray exampleBundle 0 94 = [80, 0, 0, 0, 4, 0, 0, 0, 84, 0, 0, 0, 3, 0, 0, 0, 87, 0, 0, 0, 2, 0, 0, 0, 0,
       0, 0, 0, 0, 0, 0, 0, 0, 1, 0, 0, 0, 0, 0, 0, 89, 0, 0, 0, 4, 0, 0, 0, 160, 15,
       0, 0, 0, 0, 0, 0, 0, 0, 0, 0, 0, 0, 0, 0, 93, 0, 0, 0, 1, 0, 0, 0, 0, 1, 0, 0,
       0, 0, 0, 0, 97, 46, 106, 115, 1, 2, 3, 9, 9, 98, 46, 106, 115, 7]"
  unfolding exampleBundle_literal by (simp add: subarray_def)

lemma exampleBundle_pointers:
  "list_all (pointerOk (subarray exampleBundle 0 94))
     (referencedPointers (subarray exampleBundle 0 94) \<lparr>offset = 0, length' = 80\<rparr> 40
        \<lparr>offset = 0, length' = 0\<rparr>)"
  unfolding exampleBundle_payload
  by (simp add: referencedPointers_def recordPointers_def rawPointer_def pointerOk_def
      pointerInRange_def upt_rec subarray_def le_value_def)

lemma example_decode:
  "textDecoder_decode (posix_host cwd) [97, 46, 106, 115] = ''a.js''"
  "textDecoder_decode (posix_host cwd) [98, 46, 106, 115] = ''b.js''"
  by code_simp+

lemma exampleBundle_parse:
  "parseStandalone (posix_host cwd) exampleBundle
   = Inr \<lparr>modules =
             [\<lparr>originalPath = ''a.js'', contents = [1, 2, 3], sourcemap = Some [9, 9],
               bytecode = None, encoding = 0, loader = 1, moduleFormat = 0, side = 0\<rparr>,
              \<lparr>originalPath = ''b.js'', contents = [], sourcemap = None,
               bytecode = Some [7], encoding = 0, loader = 1, moduleFormat = 0, side = 0\<rparr>],
           entryPointId = 0, compileExecArgv = ''''\<rparr>"
proof -
  have "parseRecords (posix_host cwd) [80, 0, 0, 0, 4, 0, 0, 0, 84, 0, 0, 0, 3, 0, 0, 0, 87, 0, 0, 0, 2, 0, 0, 0, 0,
       0, 0, 0, 0, 0, 0, 0, 0, 1, 0, 0, 0, 0, 0, 0, 89, 0, 0, 0, 4, 0, 0, 0, 160, 15,
       0, 0, 0, 0, 0, 0, 0, 0, 0, 0, 0, 0, 0, 0, 93, 0, 0, 0, 1, 0, 0, 0, 0, 1, 0, 0,
       0, 0, 0, 0, 97, 46, 106, 115, 1, 2, 3, 9, 9, 98, 46, 106, 115, 7]
          \<lparr>offset = 0, length' = 80\<rparr> 0 \<lparr>offset = 0, length' = 0\<rparr> 40
        = Inr \<lparr>modules =
             [\<lparr>originalPath = ''a.js'', contents = [1, 2, 3], sourcemap = Some [9, 9],
               bytecode = None, encoding = 0, loader = 1, moduleFormat = 0, side = 0\<rparr>,
              \<lparr>originalPath = ''b.js'', contents = [], sourcemap = None,
               bytecode = Some [7], encoding = 0, loader = 1, moduleFormat = 0, side = 0\<rparr>],
           entryPointId = 0, compileExecArgv = ''''\<rparr>"
    by (simp add: record_eval example_decode)
  then show ?thesis
    by (simp add: parseStandalone_cases [OF exampleBundle_table] exampleBundle_payload
        exampleBundle_length selectRecordSize_cases)
qed

lemma exampleArgvBeyond_literal:
  "exampleArgvBeyond = [0, 0, 0, 0, 0, 0, 0, 0, 0, 0, 0, 0, 0, 0, 0, 0, 0, 0, 0, 0, 1, 0, 0, 0, 0, 0,
       0, 0, 0, 0, 0, 0, 10, 45, 45, 45, 45, 32, 66, 117, 110, 33, 32, 45, 45, 45, 45,
       10]"
  by (simp add: exampleArgvBeyond_def example_eval)

lemma exampleArgvBeyond_length: "length exampleArgvBeyond = 48"
  unfolding exampleArgvBeyond_literal by simp

lemma exampleArgvBeyond_table:
  "readOffsetTable exampleArgvBeyond
   = Inr (0, \<lparr>offset = 0, length' = 0\<rparr>, 0, \<lparr>offset = 1, length' = 0\<rparr>)"
proof -
  have l: "lastIndexOfSubarray [0, 0, 0, 0, 0, 0, 0, 0, 0, 0, 0, 0, 0, 0, 0, 0, 0, 0, 0, 0, 1, 0, 0, 0, 0, 0,
       0, 0, 0, 0, 0, 0, 10, 45, 45, 45, 45, 32, 66, 117, 110, 33, 32, 45, 45, 45, 45,
       10] TRAILER_BYTES = 32"
    by code_simp
  show ?thesis
    unfolding exampleArgvBeyond_literal by (simp add: readOffsetTable_def l byte_eval)
qed

lemma exampleArgvBeyond_parse:
  "parseStandalone h exampleArgvBeyond
   = Inr \<lparr>modules = [], entryPointId = 0, compileExecArgv = ''''\<rparr>"
  by (simp add: parseStandalone_cases [OF exampleArgvBeyond_table] selectRecordSize_cases
      parseRecords_def decodeUtf8_def)

lemma exampleBadName_literal:
  "exampleBadName = [100, 0, 0, 0, 5, 0, 0, 0, 0, 0, 0, 0, 0, 0, 0, 0, 0, 0, 0, 0, 0, 0, 0, 0, 0, 0,
       0, 0, 0, 0, 0, 0, 0, 1, 0, 0, 0, 0, 0, 0, 40, 0, 0, 0, 0, 0, 0, 0, 0, 0, 0, 0,
       40, 0, 0, 0, 0, 0, 0, 0, 0, 0, 0, 0, 0, 0, 0, 0, 0, 0, 0, 0, 10, 45, 45, 45,
       45, 32, 66, 117, 110, 33, 32, 45, 45, 45, 45, 10]"
  by (simp add: exampleBadName_def example_eval)

lemma exampleBadName_length: "length exampleBadName = 88"
  unfolding exampleBadName_literal by simp

lemma exampleBadName_table:
  "readOffsetTable exampleBadName
   = Inr (40, \<lparr>offset = 0, length' = 40\<rparr>, 0, \<lparr>offset = 0, length' = 0\<rparr>)"
proof -
  have l: "lastIndexOfSubarray [100, 0, 0, 0, 5, 0, 0, 0, 0, 0, 0, 0, 0, 0, 0, 0, 0, 0, 0, 0, 0, 0, 0, 0, 0, 0,
       0, 0, 0, 0, 0, 0, 0, 1, 0, 0, 0, 0, 0, 0, 40, 0, 0, 0, 0, 0, 0, 0, 0, 0, 0, 0,
       40, 0, 0, 0, 0, 0, 0, 0, 0, 0, 0, 0, 0, 0, 0, 0, 0, 0, 0, 0, 10, 45, 45, 45,
       45, 32, 66, 117, 110, 33, 32, 45, 45, 45, 45, 10] TRAILER_BYTES = 72"
    by code_simp
  show ?thesis
    unfolding exampleBadName_literal by (simp add: readOffsetTable_def l byte_eval)
qed

lemma exampleBadName_payload:
  "subarray exampleBadName 0 40 = [100, 0, 0, 0, 5, 0, 0, 0, 0, 0, 0, 0, 0, 0, 0, 0, 0, 0, 0, 0, 0, 0, 0, 0, 0, 0,
       0, 0, 0, 0, 0, 0, 0, 1, 0, 0, 0, 0, 0, 0]"
  unfolding exampleBadName_literal by (simp add: subarray_def)

lemma exampleBadName_pointers:
  "\<not> list_all (pointerOk (subarray exampleBadName 0 40))
       (referencedPointers (subarray exampleBadName 0 40) \<lparr>offset = 0, length' = 40\<rparr> 40
          \<lparr>offset = 0, length' = 0\<rparr>)"
  unfolding exampleBadName_payload
  by (simp add: referencedPointers_def recordPointers_def rawPointer_def pointerOk_def
      pointerInRange_def upt_rec subarray_def le_value_def)

lemma exampleBadName_parse:
  "parseStandalone h exampleBadName = Inl StringPointerOutOfRange"
proof -
  have "parseRecords h [100, 0, 0, 0, 5, 0, 0, 0, 0, 0, 0, 0, 0, 0, 0, 0, 0, 0, 0, 0, 0, 0, 0, 0, 0, 0,
       0, 0, 0, 0, 0, 0, 0, 1, 0, 0, 0, 0, 0, 0]
          \<lparr>offset = 0, length' = 40\<rparr> 0 \<lparr>offset = 0, length' = 0\<rparr> 40
        = Inl StringPointerOutOfRange"
    by (simp add: record_eval)
  then show ?thesis
    by (simp add: parseStandalone_cases [OF exampleBadName_table] exampleBadName_payload
        exampleBadName_length selectRecordSize_cases)
qed

lemma exampleBadName_file:
  "extractEmbeddedData (posix_host cwd) (exampleFile exampleBadName) = Inr exampleBadName"
proof -
  let ?F = "[0, 0, 0, 0, 0, 0, 0, 0, 100, 0, 0, 0, 5, 0, 0, 0, 0, 0, 0, 0, 0, 0, 0, 0, 0, 0,
       0, 0, 0, 0, 0, 0, 0, 0, 0, 0, 0, 0, 0, 0, 0, 1, 0, 0, 0, 0, 0, 0, 40, 0, 0, 0,
       0, 0, 0, 0, 0, 0, 0, 0, 40, 0, 0, 0, 0, 0, 0, 0, 0, 0, 0, 0, 0, 0, 0, 0, 0, 0,
       0, 0, 10, 45, 45, 45, 45, 32, 66, 117, 110, 33, 32, 45, 45, 45, 45, 10, 88, 0,
       0, 0, 0, 0, 0, 0] :: byte list"
  let ?B = "[100, 0, 0, 0, 5, 0, 0, 0, 0, 0, 0, 0, 0, 0, 0, 0, 0, 0, 0, 0, 0, 0, 0, 0, 0, 0,
       0, 0, 0, 0, 0, 0, 0, 1, 0, 0, 0, 0, 0, 0, 40, 0, 0, 0, 0, 0, 0, 0, 0, 0, 0, 0,
       40, 0, 0, 0, 0, 0, 0, 0, 0, 0, 0, 0, 0, 0, 0, 0, 0, 0, 0, 0, 10, 45, 45, 45,
       45, 32, 66, 117, 110, 33, 32, 45, 45, 45, 45, 10] :: byte list"
  have f: "exampleFile ?B = ?F"
    by (simp add: exampleFile_def le_bytes_def upt_rec)
  have pe: "extractBunSection (posix_host cwd) ?F = Inl NotPE"
    by (simp add: extractBunSection_def byte_eval)
  have lf: "lastIndexOfSubarray ?F TRAILER_BYTES = 80" by code_simp
  have lb: "lastIndexOfSubarray ?B TRAILER_BYTES = 72" by code_simp
  have "extractTrailerAppendedBlob ?F = Inr (Some ?B)"
    by (simp add: extractTrailerAppendedBlob_def lf lb byte_eval subarray_def)
  then show ?thesis
    unfolding exampleBadName_literal f by (simp add: extractEmbeddedData_def pe)
qed

lemma exampleBadContents_literal:
  "exampleBadContents = [0, 0, 0, 0, 0, 0, 0, 0, 100, 0, 0, 0, 5, 0, 0, 0, 0, 0, 0, 0, 0, 0, 0, 0, 0, 0,
       0, 0, 0, 0, 0, 0, 0, 1, 0, 0, 0, 0, 0, 0, 40, 0, 0, 0, 0, 0, 0, 0, 0, 0, 0, 0,
       40, 0, 0, 0, 0, 0, 0, 0, 0, 0, 0, 0, 0, 0, 0, 0, 0, 0, 0, 0, 10, 45, 45, 45,
       45, 32, 66, 117, 110, 33, 32, 45, 45, 45, 45, 10]"
  by (simp add: exampleBadContents_def example_eval)

lemma exampleBadContents_length: "length exampleBadContents = 88"
  unfolding exampleBadContents_literal by simp

lemma exampleBadContents_table:
  "readOffsetTable exampleBadContents
   = Inr (40, \<lparr>offset = 0, length' = 40\<rparr>, 0, \<lparr>offset = 0, length' = 0\<rparr>)"
proof -
  have l: "lastIndexOfSubarray [0, 0, 0, 0, 0, 0, 0, 0, 100, 0, 0, 0, 5, 0, 0, 0, 0, 0, 0, 0, 0, 0, 0, 0, 0, 0,
       0, 0, 0, 0, 0, 0, 0, 1, 0, 0, 0, 0, 0, 0, 40, 0, 0, 0, 0, 0, 0, 0, 0, 0, 0, 0,
       40, 0, 0, 0, 0, 0, 0, 0, 0, 0, 0, 0, 0, 0, 0, 0, 0, 0, 0, 0, 10, 45, 45, 45,
       45, 32, 66, 117, 110, 33, 32, 45, 45, 45, 45, 10] TRAILER_BYTES = 72"
    by code_simp
  show ?thesis
    unfolding exampleBadContents_literal by (simp add: readOffsetTable_def l byte_eval)
qed

lemma exampleBadContents_parse:
  "parseStandalone h exampleBadContents = Inl StringPointerOutOfRange"
proof -
  have p: "subarray exampleBadContents 0 40 = [0, 0, 0, 0, 0, 0, 0, 0, 100, 0, 0, 0, 5, 0, 0, 0, 0, 0, 0, 0, 0, 0, 0, 0, 0, 0,
       0, 0, 0, 0, 0, 0, 0, 1, 0, 0, 0, 0, 0, 0]"
    unfolding exampleBadContents_literal by (simp add: subarray_def)
  have "parseRecords h [0, 0, 0, 0, 0, 0, 0, 0, 100, 0, 0, 0, 5, 0, 0, 0, 0, 0, 0, 0, 0, 0, 0, 0, 0, 0,
       0, 0, 0, 0, 0, 0, 0, 1, 0, 0, 0, 0, 0, 0]
          \<lparr>offset = 0, length' = 40\<rparr> 0 \<lparr>offset = 0, length' = 0\<rparr> 40
        = Inl StringPointerOutOfRange"
    by (simp add: record_eval)
  then show ?thesis
    by (simp add: parseStandalone_cases [OF exampleBadContents_table] p
        exampleBadContents_length selectRecordSize_cases)
qed

lemma exampleTableBeyond_literal:
  "exampleTableBeyond = [0, 0, 0, 0, 0, 0, 0, 0, 0, 0, 0, 0, 40, 0, 0, 0, 0, 0, 0, 0, 0, 0, 0, 0, 0, 0,
       0, 0, 0, 0, 0, 0, 10, 45, 45, 45, 45, 32, 66, 117, 110, 33, 32, 45, 45, 45, 45,
       10]"
  by (simp add: exampleTableBeyond_def example_eval)

lemma exampleTableBeyond_length: "length exampleTableBeyond = 48"
  unfolding exampleTableBeyond_literal by simp

lemma exampleTableBeyond_table:
  "readOffsetTable exampleTableBeyond
   = Inr (0, \<lparr>offset = 0, length' = 40\<rparr>, 0, \<lparr>offset = 0, length' = 0\<rparr>)"
proof -
  have l: "lastIndexOfSubarray [0, 0, 0, 0, 0, 0, 0, 0, 0, 0, 0, 0, 40, 0, 0, 0, 0, 0, 0, 0, 0, 0, 0, 0, 0, 0,
       0, 0, 0, 0, 0, 0, 10, 45, 45, 45, 45, 32, 66, 117, 110, 33, 32, 45, 45, 45, 45,
       10] TRAILER_BYTES = 32"
    by code_simp
  show ?thesis
    unfolding exampleTableBeyond_literal by (simp add: readOffsetTable_def l byte_eval)
qed

lemma exampleTableBeyond_file:
  "extractEmbeddedData (posix_host cwd) (exampleFile exampleTableBeyond) = Inr exampleTableBeyond"
proof -
  let ?F = "[0, 0, 0, 0, 0, 0, 0, 0, 0, 0, 0, 0, 0, 0, 0, 0, 0, 0, 0, 0, 40, 0, 0, 0, 0, 0,
       0, 0, 0, 0, 0, 0, 0, 0, 0, 0, 0, 0, 0, 0, 10, 45, 45, 45, 45, 32, 66, 117, 110,
       33, 32, 45, 45, 45, 45, 10, 48, 0, 0, 0, 0, 0, 0, 0] :: byte list"
  let ?B = "[0, 0, 0, 0, 0, 0, 0, 0, 0, 0, 0, 0, 40, 0, 0, 0, 0, 0, 0, 0, 0, 0, 0, 0, 0, 0,
       0, 0, 0, 0, 0, 0, 10, 45, 45, 45, 45, 32, 66, 117, 110, 33, 32, 45, 45, 45, 45,
       10] :: byte list"
  have f: "exampleFile ?B = ?F"
    by (simp add: exampleFile_def le_bytes_def upt_rec)
  have pe: "extractBunSection (posix_host cwd) ?F = Inl NotPE"
    by (simp add: extractBunSection_def byte_eval)
  have lf: "lastIndexOfSubarray ?F TRAILER_BYTES = 40" by code_simp
  have lb: "lastIndexOfSubarray ?B TRAILER_BYTES = 32" by code_simp
  have "extractTrailerAppendedBlob ?F = Inr (Some ?B)"
    by (simp add: extractTrailerAppendedBlob_def lf lb byte_eval subarray_def)
  then show ?thesis
    unfolding exampleTableBeyond_literal f by (simp add: extractEmbeddedData_def pe)
qed

text \<open>
  C2, as the code has it. Once the offset table is read: if the module table ends
  beyond \<open>byteCount\<close>, the parse fails and a run on that bundle makes no call to the
  file system at all. Otherwise, with the record size chosen, the parse succeeds when
  every pointer it refers to (name, contents, source map and bytecode of every record,
  and the argument pointer) has length 0 or ends within the truncated payload; when one
  of them has a length above 0 and ends beyond it, the parse fails, with the one error of
  \<open>slicePointer\<close> whichever field it is, and again the run makes no call.
\<close>

theorem C2_pointers_checked:
  "readOffsetTable blob = Inr (byteCount, modulesPtr, entryId, argvPtr) \<Longrightarrow>
   (offset modulesPtr + length' modulesPtr > byteCount \<longrightarrow>
      (\<exists>e. parseStandalone h blob = Inl e)
      \<and> (\<forall>exeBytes outputArg.
            extractEmbeddedData h exeBytes = Inr blob \<longrightarrow> fst (main h exeBytes outputArg) = []))
   \<and> (byteCount \<le> length blob \<and> offset modulesPtr + length' modulesPtr \<le> byteCount
        \<and> selectRecordSize modulesPtr = Inr recordSize \<longrightarrow>
       (let payload = subarray blob 0 byteCount;
            ptrs = referencedPointers payload modulesPtr recordSize argvPtr
        in (list_all (pointerOk payload) ptrs \<longrightarrow> (\<exists>parsed. parseStandalone h blob = Inr parsed))
           \<and> (\<not> list_all (pointerOk payload) ptrs \<longrightarrow>
                parseStandalone h blob = Inl StringPointerOutOfRange
                \<and> (\<forall>exeBytes outputArg.
                      extractEmbeddedData h exeBytes = Inr blob \<longrightarrow>
                      fst (main h exeBytes outputArg) = []))))"
proof -
  assume t: "readOffsetTable blob = Inr (byteCount, modulesPtr, entryId, argvPtr)"
  let ?payload = "subarray blob 0 byteCount"
  let ?ptrs = "referencedPointers ?payload modulesPtr recordSize argvPtr"
  have nowrite: "\<forall>exeBytes outputArg.
            extractEmbeddedData h exeBytes = Inr blob \<longrightarrow> fst (main h exeBytes outputArg) = []"
    if "parseStandalone h blob = Inl e" for e
    using that by (simp add: main_parse_error)
  have a: "offset modulesPtr + length' modulesPtr > byteCount \<longrightarrow>
      (\<exists>e. parseStandalone h blob = Inl e)"
    by (simp add: parseStandalone_cases [OF t])
  have b: "parseStandalone h blob
      = (if list_all (pointerOk ?payload) ?ptrs
         then Inr \<lparr>modules = map (\<lambda>i. decodeModule h ?payload (offset modulesPtr + i * recordSize))
                             [0..<length' modulesPtr div recordSize],
                entryPointId = entryId,
                compileExecArgv =
                  (if length' argvPtr = 0 then ''''
                   else textDecoder_decode h
                          (subarray ?payload (offset argvPtr) (offset argvPtr + length' argvPtr)))\<rparr>
         else Inl StringPointerOutOfRange)"
    if bc: "byteCount \<le> length blob" and me: "offset modulesPtr + length' modulesPtr \<le> byteCount"
      and rs: "selectRecordSize modulesPtr = Inr recordSize"
  proof -
    have len: "length ?payload = byteCount" using bc by (simp add: subarray_def)
    have r: "recordSize = 36 \<or> recordSize = 40" "length' modulesPtr mod recordSize = 0"
      using rs by (auto simp: selectRecordSize_cases split: if_splits)
    have "parseStandalone h blob = parseRecords h ?payload modulesPtr entryId argvPtr recordSize"
      using bc me rs by (simp add: parseStandalone_cases [OF t])
    then show ?thesis
      using parseRecords_cases [OF r, of ?payload h entryId argvPtr] me len by simp
  qed
  show ?thesis
    unfolding Let_def
    using a b nowrite by (auto simp del: split_paired_All)
qed

theorem C2_pointers_checked_witness:
  "(\<exists>e. parseStandalone (posix_host ''/'') exampleTableBeyond = Inl e)
   \<and> fst (main (posix_host ''/'') (exampleFile exampleTableBeyond) ''out'') = []
   \<and> (\<exists>parsed. parseStandalone (posix_host ''/'') exampleBundle = Inr parsed)
   \<and> parseStandalone (posix_host ''/'') exampleBadName = Inl StringPointerOutOfRange
   \<and> fst (main (posix_host ''/'') (exampleFile exampleBadName) ''out'') = []"
proof -
  let ?h = "posix_host ''/''"
  from C2_pointers_checked [OF exampleTableBeyond_table, of ?h]
  have 1: "(\<exists>e. parseStandalone ?h exampleTableBeyond = Inl e)
           \<and> fst (main ?h (exampleFile exampleTableBeyond) ''out'') = []"
    using exampleTableBeyond_file [of "''/''"] by simp
  from C2_pointers_checked [OF exampleBundle_table, of ?h 40]
  have 2: "\<exists>parsed. parseStandalone ?h exampleBundle = Inr parsed"
    using exampleBundle_pointers by (simp add: exampleBundle_length selectRecordSize_cases Let_def)
  from C2_pointers_checked [OF exampleBadName_table, of ?h 40]
  have 3: "parseStandalone ?h exampleBadName = Inl StringPointerOutOfRange
           \<and> fst (main ?h (exampleFile exampleBadName) ''out'') = []"
    using exampleBadName_pointers exampleBadName_file [of "''/''"]
    by (simp add: exampleBadName_length selectRecordSize_cases Let_def)
  show ?thesis using 1 2 3 by simp
qed

text \<open>
  C2 as stated fails on two counts. A pointer of length 0 is not validated: the bundle
  \<open>exampleArgvBeyond\<close> has an argument pointer whose end (offset 1, length 0) lies beyond
  the truncated payload (of length 0), and it parses. And the error does not name the
  field: a name pointer out of range and a contents pointer out of range raise the same
  error.
\<close>

theorem C2_zero_length_pointer_unchecked:
  "readOffsetTable exampleArgvBeyond
     = Inr (0, \<lparr>offset = 0, length' = 0\<rparr>, 0, \<lparr>offset = 1, length' = 0\<rparr>)
   \<and> \<not> pointerInRange (subarray exampleArgvBeyond 0 0) \<lparr>offset = 1, length' = 0\<rparr>
   \<and> parseStandalone (posix_host ''/'') exampleArgvBeyond
       = Inr \<lparr>modules = [], entryPointId = 0, compileExecArgv = ''''\<rparr>
   \<and> parseStandalone (posix_host ''/'') exampleBadName = Inl StringPointerOutOfRange
   \<and> parseStandalone (posix_host ''/'') exampleBadContents = Inl StringPointerOutOfRange"
  by (simp add: exampleArgvBeyond_table exampleArgvBeyond_parse exampleBadName_parse
      exampleBadContents_parse pointerInRange_def subarray_def)

subsection \<open>Optional artifacts and empty contents\<close>

lemma closingWrites_manifest:
  "WriteFile (path_resolve h [out, ''metadata.json''])
     (Json \<lparr>modules_m = md, entryPointId_m = entryPointId parsed,
            compileExecArgv_m = compileExecArgv parsed\<rparr>)
   \<in> set (closingWrites h out parsed md)"
  by (simp add: closingWrites_def)

lemma moduleWrites_contents: "WriteFile t (Bytes (contents m)) \<in> set (moduleWrites h t m)"
  by (simp add: moduleWrites_def)

lemma moduleWrites_sourcemap:
  "sourcemap m = Some sm \<Longrightarrow> WriteFile (t @ ''.map'') (Bytes sm) \<in> set (moduleWrites h t m)"
  "sourcemap m = None \<Longrightarrow> WriteFile (t @ ''.map'') d \<notin> set (moduleWrites h t m)"
  by (auto simp: moduleWrites_def split: option.splits)

lemma moduleWrites_bytecode:
  "bytecode m = Some bc \<Longrightarrow>
   WriteFile (t @ ''.bytecode.bin'') (Bytes bc) \<in> set (moduleWrites h t m)"
  "bytecode m = None \<Longrightarrow> WriteFile (t @ ''.bytecode.bin'') d \<notin> set (moduleWrites h t m)"
  by (auto simp: moduleWrites_def split: option.splits)

text \<open>
  What a completed run does for module \<open>i\<close>: the module is the one decoded from record
  \<open>i\<close>, the calls made hold the calls for it at its target path, and entry \<open>i\<close> of the
  manifest is its entry.
\<close>

lemma completed_run_module:
  assumes t: "readOffsetTable blob = Inr (byteCount, modulesPtr, entryId, argvPtr)"
    and rs: "selectRecordSize modulesPtr = Inr recordSize"
    and p: "parseStandalone h blob = Inr parsed"
    and i: "i < length (modules parsed)"
    and run: "writeOutputs h parsed outputDir = (ops, None)"
  shows "modules parsed ! i
           = decodeModule h (subarray blob 0 byteCount) (offset modulesPtr + i * recordSize)"
    and "set (moduleWrites h (targetPaths h (path_resolve h [outputDir]) (modules parsed) ! i)
               (modules parsed ! i)) \<subseteq> set ops"
    and "allModuleMeta 0 (modules parsed) (choosePaths h (modules parsed) 0 Map.empty) ! i
           = moduleMeta i (modules parsed ! i) (choosePaths h (modules parsed) 0 Map.empty ! i)"
    and "WriteFile (path_resolve h [path_resolve h [outputDir], ''metadata.json''])
           (Json \<lparr>modules_m =
                    allModuleMeta 0 (modules parsed) (choosePaths h (modules parsed) 0 Map.empty),
                  entryPointId_m = entryPointId parsed,
                  compileExecArgv_m = compileExecArgv parsed\<rparr>) \<in> set ops"
proof -
  have m: "modules parsed
         = map (\<lambda>i. decodeModule h (subarray blob 0 byteCount) (offset modulesPtr + i * recordSize))
             [0..<length' modulesPtr div recordSize]"
    by (rule parsed_modules [OF t rs p])
  have "i < length' modulesPtr div recordSize" using i unfolding m by simp
  then show "modules parsed ! i
           = decodeModule h (subarray blob 0 byteCount) (offset modulesPtr + i * recordSize)"
    unfolding m by simp
  note o = writeOutputs_completed [OF run]
  show "set (moduleWrites h (targetPaths h (path_resolve h [outputDir]) (modules parsed) ! i)
               (modules parsed ! i)) \<subseteq> set ops"
    using allModuleWrites_sub [of i "modules parsed"
        "targetPaths h (path_resolve h [outputDir]) (modules parsed)" h] i
    unfolding o by auto
  show "allModuleMeta 0 (modules parsed) (choosePaths h (modules parsed) 0 Map.empty) ! i
           = moduleMeta i (modules parsed ! i) (choosePaths h (modules parsed) 0 Map.empty ! i)"
    using allModuleMeta_nth [of i "modules parsed" "choosePaths h (modules parsed) 0 Map.empty" 0] i
    by simp
  show "WriteFile (path_resolve h [path_resolve h [outputDir], ''metadata.json''])
           (Json \<lparr>modules_m =
                    allModuleMeta 0 (modules parsed) (choosePaths h (modules parsed) 0 Map.empty),
                  entryPointId_m = entryPointId parsed,
                  compileExecArgv_m = compileExecArgv parsed\<rparr>) \<in> set ops"
    unfolding o using closingWrites_manifest by simp
qed

lemma exampleParsed_parse:
  "parseStandalone (posix_host cwd) exampleBundle = Inr exampleParsed"
  by (simp add: exampleBundle_parse exampleParsed_def)

lemma exampleParsed_run:
  "writeOutputs (posix_host ''/w'') exampleParsed ''out'' = (exampleOps, None)"
  by code_simp

lemma exampleParsed_paths:
  "path_resolve (posix_host ''/w'') [''out''] = ''/w/out''"
  "targetPaths (posix_host ''/w'') ''/w/out'' (modules exampleParsed)
   = [''/w/out/a.js'', ''/w/out/b.js'']"
  "choosePaths (posix_host ''/w'') (modules exampleParsed) 0 Map.empty = [''a.js'', ''b.js'']"
  "length (modules exampleParsed) = 2"
  by code_simp+

lemma exampleBundle_record_pointers:
  "rawPointer (subarray exampleBundle 0 94) 8 = \<lparr>offset = 84, length' = 3\<rparr>"
  "rawPointer (subarray exampleBundle 0 94) 16 = \<lparr>offset = 87, length' = 2\<rparr>"
  "rawPointer (subarray exampleBundle 0 94) 24 = \<lparr>offset = 0, length' = 0\<rparr>"
  "rawPointer (subarray exampleBundle 0 94) 48 = \<lparr>offset = 4000, length' = 0\<rparr>"
  "rawPointer (subarray exampleBundle 0 94) 56 = \<lparr>offset = 0, length' = 0\<rparr>"
  "rawPointer (subarray exampleBundle 0 94) 64 = \<lparr>offset = 93, length' = 1\<rparr>"
  unfolding exampleBundle_payload
  by (simp_all add: rawPointer_def subarray_def le_value_def)

lemma exampleBundle_slices:
  "subarray (subarray exampleBundle 0 94) 87 89 = [9, 9]"
  "subarray (subarray exampleBundle 0 94) 93 94 = [7]"
  unfolding exampleBundle_payload by (simp_all add: subarray_def)

text \<open>
  C8. In a run that parses the bundle and completes, take module \<open>i\<close>, its source-map
  pointer \<open>sp\<close> and its bytecode pointer \<open>bp\<close> as the record holds them, its target path
  \<open>t\<close> and its entry in the manifest written. If \<open>sp\<close> has length 0, the module's source
  map is null, the entry says \<open>hasSourcemap: false\<close>, and none of the calls made for the
  module writes \<open>t.map\<close>. If \<open>sp\<close> has a length above 0, the source map is the slice of
  the payload that \<open>sp\<close> names, these very bytes are written to \<open>t.map\<close>, and the entry
  says \<open>hasSourcemap: true\<close>. The same holds of \<open>bp\<close>, \<open>t.bytecode.bin\<close> and
  \<open>hasBytecode\<close>.
\<close>

theorem C8_optional_artifacts:
  "readOffsetTable blob = Inr (byteCount, modulesPtr, entryId, argvPtr) \<Longrightarrow>
   selectRecordSize modulesPtr = Inr recordSize \<Longrightarrow>
   parseStandalone h blob = Inr parsed \<Longrightarrow>
   i < length (modules parsed) \<Longrightarrow>
   writeOutputs h parsed outputDir = (ops, None) \<Longrightarrow>
   (let payload = subarray blob 0 byteCount;
        base = offset modulesPtr + i * recordSize;
        sp = rawPointer payload (base + 16);
        bp = rawPointer payload (base + 24);
        m = modules parsed ! i;
        t = targetPaths h (path_resolve h [outputDir]) (modules parsed) ! i;
        metadata = allModuleMeta 0 (modules parsed) (choosePaths h (modules parsed) 0 Map.empty);
        entry = metadata ! i
    in set (moduleWrites h t m) \<subseteq> set ops
       \<and> WriteFile (path_resolve h [path_resolve h [outputDir], ''metadata.json''])
             (Json \<lparr>modules_m = metadata, entryPointId_m = entryPointId parsed,
                    compileExecArgv_m = compileExecArgv parsed\<rparr>) \<in> set ops
       \<and> (length' sp = 0 \<longrightarrow>
             sourcemap m = None \<and> \<not> hasSourcemap entry
             \<and> (\<forall>d. WriteFile (t @ ''.map'') d \<notin> set (moduleWrites h t m)))
       \<and> (length' sp > 0 \<longrightarrow>
             sourcemap m = Some (subarray payload (offset sp) (offset sp + length' sp))
             \<and> hasSourcemap entry
             \<and> WriteFile (t @ ''.map'')
                  (Bytes (subarray payload (offset sp) (offset sp + length' sp))) \<in> set ops)
       \<and> (length' bp = 0 \<longrightarrow>
             bytecode m = None \<and> \<not> hasBytecode entry
             \<and> (\<forall>d. WriteFile (t @ ''.bytecode.bin'') d \<notin> set (moduleWrites h t m)))
       \<and> (length' bp > 0 \<longrightarrow>
             bytecode m = Some (subarray payload (offset bp) (offset bp + length' bp))
             \<and> hasBytecode entry
             \<and> WriteFile (t @ ''.bytecode.bin'')
                  (Bytes (subarray payload (offset bp) (offset bp + length' bp))) \<in> set ops))"
proof -
  assume t: "readOffsetTable blob = Inr (byteCount, modulesPtr, entryId, argvPtr)"
    and rs: "selectRecordSize modulesPtr = Inr recordSize"
    and p: "parseStandalone h blob = Inr parsed"
    and i: "i < length (modules parsed)"
    and run: "writeOutputs h parsed outputDir = (ops, None)"
  note c = completed_run_module [OF t rs p i run]
  let ?payload = "subarray blob 0 byteCount"
  let ?base = "offset modulesPtr + i * recordSize"
  let ?sp = "rawPointer ?payload (?base + 16)"
  let ?bp = "rawPointer ?payload (?base + 24)"
  let ?m = "modules parsed ! i"
  let ?t = "targetPaths h (path_resolve h [outputDir]) (modules parsed) ! i"
  let ?entry = "allModuleMeta 0 (modules parsed) (choosePaths h (modules parsed) 0 Map.empty) ! i"
  have sm: "sourcemap ?m
            = (if length' ?sp > 0
               then Some (subarray ?payload (offset ?sp) (offset ?sp + length' ?sp)) else None)"
    unfolding c(1) by (simp add: decodeModule_def Let_def)
  have bc: "bytecode ?m
            = (if length' ?bp > 0
               then Some (subarray ?payload (offset ?bp) (offset ?bp + length' ?bp)) else None)"
    unfolding c(1) by (simp add: decodeModule_def Let_def)
  have hs: "hasSourcemap ?entry = (sourcemap ?m \<noteq> None)"
    and hb: "hasBytecode ?entry = (bytecode ?m \<noteq> None)"
    unfolding c(3) by (simp_all add: moduleMeta_def)
  have s0: "length' ?sp = 0 \<longrightarrow>
             sourcemap ?m = None \<and> \<not> hasSourcemap ?entry
             \<and> (\<forall>d. WriteFile (?t @ ''.map'') d \<notin> set (moduleWrites h ?t ?m))"
    using sm hs moduleWrites_sourcemap(2) [of ?m ?t _ h] by simp
  have s1: "length' ?sp > 0 \<longrightarrow>
             sourcemap ?m = Some (subarray ?payload (offset ?sp) (offset ?sp + length' ?sp))
             \<and> hasSourcemap ?entry
             \<and> WriteFile (?t @ ''.map'')
                  (Bytes (subarray ?payload (offset ?sp) (offset ?sp + length' ?sp))) \<in> set ops"
    using sm hs c(2) moduleWrites_sourcemap(1) [of ?m _ ?t h] by auto
  have b0: "length' ?bp = 0 \<longrightarrow>
             bytecode ?m = None \<and> \<not> hasBytecode ?entry
             \<and> (\<forall>d. WriteFile (?t @ ''.bytecode.bin'') d \<notin> set (moduleWrites h ?t ?m))"
    using bc hb moduleWrites_bytecode(2) [of ?m ?t _ h] by simp
  have b1: "length' ?bp > 0 \<longrightarrow>
             bytecode ?m = Some (subarray ?payload (offset ?bp) (offset ?bp + length' ?bp))
             \<and> hasBytecode ?entry
             \<and> WriteFile (?t @ ''.bytecode.bin'')
                  (Bytes (subarray ?payload (offset ?bp) (offset ?bp + length' ?bp))) \<in> set ops"
    using bc hb c(2) moduleWrites_bytecode(1) [of ?m _ ?t h] by auto
  show ?thesis
    unfolding Let_def using c(2) c(4) s0 s1 b0 b1 by blast
qed

theorem C8_optional_artifacts_witness:
  "WriteFile ''/w/out/a.js.map'' (Bytes [9, 9]) \<in> set exampleOps
   \<and> sourcemap (modules exampleParsed ! 0) = Some [9, 9]
   \<and> hasSourcemap
        (allModuleMeta 0 (modules exampleParsed)
           (choosePaths (posix_host ''/w'') (modules exampleParsed) 0 Map.empty) ! 0)
   \<and> sourcemap (modules exampleParsed ! 1) = None
   \<and> \<not> hasSourcemap
          (allModuleMeta 0 (modules exampleParsed)
             (choosePaths (posix_host ''/w'') (modules exampleParsed) 0 Map.empty) ! 1)
   \<and> (\<forall>d. WriteFile ''/w/out/b.js.map'' d
            \<notin> set (moduleWrites (posix_host ''/w'') ''/w/out/b.js'' (modules exampleParsed ! 1)))
   \<and> WriteFile ''/w/out/b.js.bytecode.bin'' (Bytes [7]) \<in> set exampleOps"
proof -
  let ?h = "posix_host ''/w''"
  have sel: "selectRecordSize \<lparr>offset = 0, length' = 80\<rparr> = Inr 40"
    by (simp add: selectRecordSize_cases)
  have i0: "0 < length (modules exampleParsed)" and i1: "1 < length (modules exampleParsed)"
    by (simp_all add: exampleParsed_paths)
  note th0 = C8_optional_artifacts
    [OF exampleBundle_table sel exampleParsed_parse i0 exampleParsed_run]
  note th1 = C8_optional_artifacts
    [OF exampleBundle_table sel exampleParsed_parse i1 exampleParsed_run]
  have a: "WriteFile ''/w/out/a.js.map'' (Bytes [9, 9]) \<in> set exampleOps
           \<and> sourcemap (modules exampleParsed ! 0) = Some [9, 9]
           \<and> hasSourcemap
                (allModuleMeta 0 (modules exampleParsed)
                   (choosePaths ?h (modules exampleParsed) 0 Map.empty) ! 0)"
    using th0
    by (simp add: Let_def exampleParsed_paths exampleBundle_record_pointers exampleBundle_slices
        del: choosePaths.simps)
  have b: "sourcemap (modules exampleParsed ! 1) = None
           \<and> \<not> hasSourcemap
                  (allModuleMeta 0 (modules exampleParsed)
                     (choosePaths ?h (modules exampleParsed) 0 Map.empty) ! 1)
           \<and> (\<forall>d. WriteFile ''/w/out/b.js.map'' d
                    \<notin> set (moduleWrites ?h ''/w/out/b.js'' (modules exampleParsed ! 1)))
           \<and> WriteFile ''/w/out/b.js.bytecode.bin'' (Bytes [7]) \<in> set exampleOps"
    using th1
    by (simp add: Let_def exampleParsed_paths exampleBundle_record_pointers exampleBundle_slices
        del: choosePaths.simps)
  show ?thesis using a b by simp
qed

text \<open>
  C10. In a run that parses the bundle and completes, a module whose contents pointer
  has length 0 has the empty buffer for contents (the field is a buffer, never null),
  the writer still writes the file, empty, at the module's target path, and the manifest
  written lists the module: its entry \<open>i\<close> carries the index \<open>i\<close>, the module's original
  path and its relative path.
\<close>

theorem C10_empty_contents_written:
  "readOffsetTable blob = Inr (byteCount, modulesPtr, entryId, argvPtr) \<Longrightarrow>
   selectRecordSize modulesPtr = Inr recordSize \<Longrightarrow>
   parseStandalone h blob = Inr parsed \<Longrightarrow>
   i < length (modules parsed) \<Longrightarrow>
   writeOutputs h parsed outputDir = (ops, None) \<Longrightarrow>
   length' (rawPointer (subarray blob 0 byteCount) (offset modulesPtr + i * recordSize + 8)) = 0 \<Longrightarrow>
   (let m = modules parsed ! i;
        t = targetPaths h (path_resolve h [outputDir]) (modules parsed) ! i;
        relPaths = choosePaths h (modules parsed) 0 Map.empty;
        metadata = allModuleMeta 0 (modules parsed) relPaths;
        entry = metadata ! i
    in contents m = []
       \<and> WriteFile t (Bytes []) \<in> set ops
       \<and> WriteFile (path_resolve h [path_resolve h [outputDir], ''metadata.json''])
             (Json \<lparr>modules_m = metadata, entryPointId_m = entryPointId parsed,
                    compileExecArgv_m = compileExecArgv parsed\<rparr>) \<in> set ops
       \<and> i < length metadata
       \<and> index_m entry = i
       \<and> originalPath_m entry = originalPath m
       \<and> relativePath entry = relPaths ! i)"
proof -
  assume t: "readOffsetTable blob = Inr (byteCount, modulesPtr, entryId, argvPtr)"
    and rs: "selectRecordSize modulesPtr = Inr recordSize"
    and p: "parseStandalone h blob = Inr parsed"
    and i: "i < length (modules parsed)"
    and run: "writeOutputs h parsed outputDir = (ops, None)"
    and z: "length' (rawPointer (subarray blob 0 byteCount)
                      (offset modulesPtr + i * recordSize + 8)) = 0"
  note c = completed_run_module [OF t rs p i run]
  let ?m = "modules parsed ! i"
  let ?t = "targetPaths h (path_resolve h [outputDir]) (modules parsed) ! i"
  let ?ps = "choosePaths h (modules parsed) 0 Map.empty"
  let ?md = "allModuleMeta 0 (modules parsed) ?ps"
  have e: "contents ?m = []"
    unfolding c(1) using z by (simp add: decodeModule_def Let_def)
  have w: "WriteFile ?t (Bytes []) \<in> set ops"
    using c(2) moduleWrites_contents [of ?t ?m h] e by auto
  have l: "i < length ?md" using i by (simp add: allModuleMeta_length)
  have f: "index_m (?md ! i) = i" "originalPath_m (?md ! i) = originalPath ?m"
    "relativePath (?md ! i) = ?ps ! i"
    unfolding c(3) by (simp_all add: moduleMeta_def)
  show ?thesis
    unfolding Let_def using e w c(4) l f by simp
qed

theorem C10_empty_contents_written_witness:
  "length' (rawPointer (subarray exampleBundle 0 94) 48) = 0
   \<and> length (subarray exampleBundle 0 94) < offset (rawPointer (subarray exampleBundle 0 94) 48)
   \<and> contents (modules exampleParsed ! 1) = []
   \<and> WriteFile ''/w/out/b.js'' (Bytes []) \<in> set exampleOps
   \<and> index_m (allModuleMeta 0 (modules exampleParsed)
                (choosePaths (posix_host ''/w'') (modules exampleParsed) 0 Map.empty) ! 1) = 1
   \<and> relativePath (allModuleMeta 0 (modules exampleParsed)
                (choosePaths (posix_host ''/w'') (modules exampleParsed) 0 Map.empty) ! 1) = ''b.js''"
proof -
  let ?h = "posix_host ''/w''"
  have sel: "selectRecordSize \<lparr>offset = 0, length' = 80\<rparr> = Inr 40"
    by (simp add: selectRecordSize_cases)
  have i1: "1 < length (modules exampleParsed)"
    by (simp add: exampleParsed_paths)
  have z: "length' (rawPointer (subarray exampleBundle 0 94)
                      (offset \<lparr>offset = 0, length' = 80\<rparr> + 1 * 40 + 8)) = 0"
    by (simp add: exampleBundle_record_pointers)
  have n: "length (subarray exampleBundle 0 94) = 94"
    by (simp add: subarray_def exampleBundle_length)
  from C10_empty_contents_written
    [OF exampleBundle_table sel exampleParsed_parse i1 exampleParsed_run z]
  show ?thesis
    by (simp add: Let_def exampleParsed_paths exampleBundle_record_pointers n
        del: choosePaths.simps)
qed

subsection \<open>The writer's check and the segments of a path\<close>

lemma splitOn_append:
  "splitOn c (a @ c # b) = splitOn c a @ splitOn c b"
proof (induction a)
  case Nil
  then show ?case by simp
next
  case (Cons x a)
  then show ?case
    using splitOn_not_Nil [of c a] by (cases "splitOn c a") auto
qed

lemma segments_append:
  "segments c (a @ c # b) = segments c a @ segments c b"
  by (simp add: segments_def splitOn_append)

lemma segments_Nil [simp]: "segments c [] = []"
  by (simp add: segments_def)

lemma segments_snoc_sep: "segments c (a @ [c]) = segments c a"
  using segments_append [of c a "[]"] by simp

lemma endsWith_single:
  "endsWith dir [c] \<longleftrightarrow> (\<exists>d. dir = d @ [c])"
proof
  assume "endsWith dir [c]"
  then have "1 \<le> length dir" and "drop (length dir - 1) dir = [c]"
    by (simp_all add: endsWith_def)
  then have "dir = take (length dir - 1) dir @ [c]"
    by (metis append_take_drop_id)
  then show "\<exists>d. dir = d @ [c]" ..
next
  assume "\<exists>d. dir = d @ [c]"
  then show "endsWith dir [c]" by (auto simp: endsWith_def)
qed

text \<open>
  A target that passes the check of line 292 lies at or below the output directory. The
  separator that \<open>ensureTrailingSep\<close> appends is what makes it so: a target that merely
  starts with the characters of the directory need not.
\<close>

lemma insideOutput_atOrBelow:
  assumes sep: "path_sep h = [c]"
    and ins: "insideOutput out (ensureTrailingSep h out) t"
  shows "atOrBelow c out t"
proof (cases "t = out")
  case True
  then show ?thesis by (simp add: atOrBelow_def)
next
  case False
  then have sw: "startsWith t (ensureTrailingSep h out)"
    using ins by (simp add: insideOutput_def)
  show ?thesis
  proof (cases "endsWith out [c]")
    case True
    then obtain d where d: "out = d @ [c]" by (auto simp: endsWith_single)
    have "take (length out) t = out"
      using sw True sep by (simp add: ensureTrailingSep_def startsWith_def)
    then have "t = out @ drop (length out) t"
      by (metis append_take_drop_id)
    then obtain r where "t = d @ c # r" using d by auto
    then have "segments c t = segments c out @ segments c r"
      using d by (simp add: segments_append segments_snoc_sep)
    then show ?thesis by (simp add: atOrBelow_def)
  next
    case False
    then have "take (length (out @ [c])) t = out @ [c]"
      using sw sep by (simp add: ensureTrailingSep_def startsWith_def)
    then have "t = (out @ [c]) @ drop (length (out @ [c])) t"
      by (metis append_take_drop_id)
    then obtain r where "t = out @ c # r" by auto
    then have "segments c t = segments c out @ segments c r"
      by (simp add: segments_append)
    then show ?thesis by (simp add: atOrBelow_def)
  qed
qed

subsection \<open>Resolving on the POSIX host\<close>

lemma posix_normalize_filter:
  "posix_normalize segs res = posix_normalize (filter (\<lambda>s. s \<noteq> '''') segs) res"
  by (induction segs res rule: posix_normalize.induct) simp_all

lemma posix_normalize_append:
  "posix_normalize (xs @ ys) res = posix_normalize ys (posix_normalize xs res)"
  by (induction xs res rule: posix_normalize.induct) simp_all

lemma posix_normalize_plain:
  "''..'' \<notin> set segs \<Longrightarrow>
   posix_normalize segs res = res @ filter (\<lambda>s. s \<noteq> '''' \<and> s \<noteq> ''.'') segs"
  by (induction segs res rule: posix_normalize.induct) auto

lemma posix_normalize_elems:
  "s \<in> set (posix_normalize segs res) \<Longrightarrow> s \<in> set res \<or> (s \<in> set segs \<and> s \<noteq> '''' \<and> s \<noteq> ''.'' \<and> s \<noteq> ''..'')"
  by (induction segs res rule: posix_normalize.induct)
     (auto split: if_splits dest: in_set_butlastD)

lemma posix_normalize_splitOn_plain:
  "plain (posix_normalize (splitOn CHR ''/'' s) [])"
  unfolding plain_def using posix_normalize_elems splitOn_no_sep by fastforce

lemma segments_join:
  assumes "\<forall>p\<in>set ps. p \<noteq> '''' \<and> CHR ''/'' \<notin> set p"
  shows "segments CHR ''/'' (join ''/'' ps) = ps"
proof (cases "ps = []")
  case True
  then show ?thesis by simp
next
  case False
  have "splitOn CHR ''/'' (join ''/'' ps) = ps"
    using splitOn_join [OF False, of "CHR ''/''"] assms by simp
  moreover have "filter (\<lambda>s. s \<noteq> '''') ps = ps"
    using assms by (simp add: filter_id_conv)
  ultimately show ?thesis by (simp add: segments_def)
qed

lemma segments_root_join:
  assumes "\<forall>p\<in>set ps. p \<noteq> '''' \<and> CHR ''/'' \<notin> set p"
  shows "segments CHR ''/'' (''/'' @ join ''/'' ps) = ps"
  using segments_append [of "CHR ''/''" "[]" "join ''/'' ps"] segments_join [OF assms]
  by simp

lemma posix_resolve_form:
  "\<exists>ns. plain ns \<and> posix_resolve cwd paths = ''/'' @ join ''/'' ns"
  unfolding posix_resolve_def using posix_normalize_splitOn_plain by blast

lemma join_append:
  "xs \<noteq> [] \<Longrightarrow> ys \<noteq> [] \<Longrightarrow> join s (xs @ ys) = join s xs @ s @ join s ys"
proof (induction s xs rule: join.induct)
  case (1 s)
  then show ?case by simp
next
  case (2 s p)
  then show ?case by (cases ys) simp_all
next
  case (3 s p q ps)
  then show ?case by simp
qed

lemma join_last:
  "ps \<noteq> [] \<Longrightarrow> last ps \<noteq> [] \<Longrightarrow> join s ps \<noteq> [] \<and> last (join s ps) = last (last ps)"
  by (induction s ps rule: join.induct) auto

lemma join_hd:
  "ps \<noteq> [] \<Longrightarrow> hd ps \<noteq> [] \<Longrightarrow> join s ps \<noteq> [] \<and> hd (join s ps) = hd (hd ps)"
  by (induction s ps rule: join.induct) auto

text \<open>
  A relative path that is not empty, does not start at the root and has no \<open>..\<close>
  segment resolves, against a resolved directory, to the directory's segments followed
  by its own segments other than \<open>.\<close>.
\<close>

lemma posix_resolve_below:
  assumes ns: "plain ns" and rel: "staysBelow rel"
  shows "posix_resolve cwd [''/'' @ join ''/'' ns, rel]
           = ''/'' @ join ''/'' (ns @ filter (\<lambda>s. s \<noteq> ''.'') (segments CHR ''/'' rel))"
proof -
  let ?out = "''/'' @ join ''/'' ns"
  have nabs: "\<not> posix_isAbsolute rel" and ne: "rel \<noteq> ''''"
    using rel by (auto simp: staysBelow_def posix_isAbsolute_def split: list.splits)
  have g: "posix_gather (rev [?out, rel] @ [cwd]) '''' = ?out @ ''/'' @ rel @ ''/''"
    using nabs ne by (simp add: posix_isAbsolute_def)
  have "?out @ ''/'' @ rel @ ''/'' = [] @ CHR ''/'' # (join ''/'' ns @ CHR ''/'' # (rel @ CHR ''/'' # []))"
    by simp
  then have s: "splitOn CHR ''/'' (?out @ ''/'' @ rel @ ''/'')
          = [''''] @ splitOn CHR ''/'' (join ''/'' ns) @ splitOn CHR ''/'' rel @ ['''']"
    by (simp only: splitOn_append splitOn.simps)
  have nsf: "\<forall>p\<in>set ns. p \<noteq> '''' \<and> CHR ''/'' \<notin> set p"
    using ns by (simp add: plain_def)
  have f: "filter (\<lambda>s. s \<noteq> '''') (splitOn CHR ''/'' (?out @ ''/'' @ rel @ ''/''))
          = ns @ segments CHR ''/'' rel"
    unfolding s using segments_join [OF nsf] by (simp add: segments_def)
  have n1: "posix_normalize ns [] = ns"
    using ns posix_normalize_plain [of ns "[]"] by (auto simp: plain_def filter_id_conv)
  have dd: "''..'' \<notin> set (segments CHR ''/'' rel)"
    using rel by (simp add: staysBelow_def segments_def)
  have n2: "posix_normalize (segments CHR ''/'' rel) ns
          = ns @ filter (\<lambda>s. s \<noteq> ''.'') (segments CHR ''/'' rel)"
    using posix_normalize_plain [OF dd, of ns]
    by (simp add: segments_def conj_commute)
  have "posix_normalize (splitOn CHR ''/'' (?out @ ''/'' @ rel @ ''/'')) []
          = ns @ filter (\<lambda>s. s \<noteq> ''.'') (segments CHR ''/'' rel)"
    using posix_normalize_filter [of "splitOn CHR ''/'' (?out @ ''/'' @ rel @ ''/'')" "[]"]
    by (simp only: f posix_normalize_append n1 n2)
  then show ?thesis
    unfolding posix_resolve_def g by simp
qed

lemma plain_append_rel:
  assumes "plain ns"
  shows "\<forall>p\<in>set (ns @ filter (\<lambda>s. s \<noteq> ''.'') (segments CHR ''/'' rel)).
           p \<noteq> '''' \<and> CHR ''/'' \<notin> set p"
  using assms splitOn_no_sep by (fastforce simp: plain_def segments_def)

lemma posix_target_segments:
  assumes ns: "plain ns" and rel: "staysBelow rel"
  shows "segments CHR ''/'' (posix_resolve cwd [''/'' @ join ''/'' ns, rel])
           = segments CHR ''/'' (''/'' @ join ''/'' ns)
             @ filter (\<lambda>s. s \<noteq> ''.'') (segments CHR ''/'' rel)"
proof -
  have "\<forall>p\<in>set ns. p \<noteq> '''' \<and> CHR ''/'' \<notin> set p"
    using ns by (simp add: plain_def)
  then show ?thesis
    unfolding posix_resolve_below [OF ns rel]
    using segments_root_join [OF plain_append_rel [OF ns, of rel]] segments_root_join [of ns]
    by simp
qed

text \<open>Such a target passes the check of line 292.\<close>

lemma posix_target_passes:
  assumes ns: "plain ns" and rel: "staysBelow rel"
  shows "insideOutput (''/'' @ join ''/'' ns)
           (ensureTrailingSep (posix_host cwd) (''/'' @ join ''/'' ns))
           (posix_resolve cwd [''/'' @ join ''/'' ns, rel])"
proof -
  let ?rs = "filter (\<lambda>s. s \<noteq> ''.'') (segments CHR ''/'' rel)"
  let ?out = "''/'' @ join ''/'' ns"
  have t: "posix_resolve cwd [?out, rel] = ''/'' @ join ''/'' (ns @ ?rs)"
    by (rule posix_resolve_below [OF ns rel])
  show ?thesis
  proof (cases "?rs = []")
    case True
    then show ?thesis unfolding t by (simp add: insideOutput_def)
  next
    case rs: False
    show ?thesis
    proof (cases "ns = []")
      case True
      then show ?thesis
        unfolding t by (simp add: insideOutput_def ensureTrailingSep_def posix_host_def
            endsWith_def startsWith_def)
    next
      case False
      then have "last ns \<noteq> []" and "CHR ''/'' \<notin> set (last ns)"
        using ns last_in_set [OF False] by (auto simp: plain_def)
      moreover from this have "last (last ns) \<noteq> CHR ''/''"
        using last_in_set [of "last ns"] by metis
      ultimately have "join ''/'' ns \<noteq> []" and "last (join ''/'' ns) \<noteq> CHR ''/''"
        using join_last [OF False, of "''/''"] by auto
      then have "last ?out \<noteq> CHR ''/''" by simp
      then have "\<not> endsWith ?out ''/''"
        unfolding endsWith_single by (metis last_snoc)
      then have "ensureTrailingSep (posix_host cwd) ?out = ?out @ ''/''"
        by (simp add: ensureTrailingSep_def posix_host_def)
      then show ?thesis
        unfolding t using join_append [OF False rs, of "''/''"]
        by (simp add: insideOutput_def startsWith_def)
    qed
  qed
qed

subsection \<open>The relative paths chosen on the POSIX host\<close>

lemma splitOn_subset: "p \<in> set (splitOn c s) \<Longrightarrow> set p \<subseteq> set s"
proof (induction s arbitrary: p)
  case Nil
  then show ?case by simp
next
  case (Cons a s)
  show ?case
  proof (cases "a = c")
    case True
    then have "p = [] \<or> p \<in> set (splitOn c s)" using Cons.prems by simp
    then show ?thesis using Cons.IH by auto
  next
    case False
    obtain q qs where q: "splitOn c s = q # qs"
      using splitOn_not_Nil [of c s] by (cases "splitOn c s") auto
    then have "p = a # q \<or> p \<in> set qs" using Cons.prems False by simp
    moreover have "set q \<subseteq> set s" using Cons.IH [of q] q by simp
    moreover have "p \<in> set qs \<Longrightarrow> set p \<subseteq> set s" using Cons.IH [of p] q by simp
    ultimately show ?thesis by auto
  qed
qed

lemma splitRuns_single: "\<forall>c\<in>set x. \<not> P c \<Longrightarrow> splitRuns P x = [x]"
  by (induction x) auto

lemma splitRuns_append_sep:
  "\<forall>c\<in>set p. \<not> P c \<Longrightarrow> P c \<Longrightarrow> splitRuns P (p @ c # s) = p # splitRuns P (dropWhile P s)"
  by (induction p) auto

lemma dropWhile_hd: "xs \<noteq> [] \<Longrightarrow> \<not> P (hd xs) \<Longrightarrow> dropWhile P xs = xs"
  by (cases xs) auto

lemma splitRuns_join:
  "ps \<noteq> [] \<Longrightarrow> \<forall>p\<in>set ps. p \<noteq> '''' \<and> (\<forall>c\<in>set p. \<not> isSlash c) \<Longrightarrow>
   splitRuns isSlash (join ''/'' ps) = ps"
proof (induction "''/''" ps rule: join.induct)
  case 1
  then show ?case by simp
next
  case (2 p)
  then show ?case by (simp add: splitRuns_single)
next
  case (3 p q ps)
  have "hd (join ''/'' (q # ps)) = hd q" and "join ''/'' (q # ps) \<noteq> []"
    using 3(3) join_hd [of "q # ps" "''/''"] by auto
  moreover have "\<not> isSlash (hd q)" using 3(3) by (cases q) auto
  ultimately have "dropWhile isSlash (join ''/'' (q # ps)) = join ''/'' (q # ps)"
    by (simp add: dropWhile_hd)
  moreover have "isSlash CHR ''/''" by (simp add: isSlash_def)
  ultimately show ?case
    using 3 by (simp add: splitRuns_append_sep)
qed

lemma digitChar_digit: "d < 10 \<Longrightarrow> digitChar d \<in> set ''0123456789''"
  unfolding digitChar_def by (rule nth_mem) simp

lemma toString_digits: "toString n \<noteq> [] \<and> set (toString n) \<subseteq> set ''0123456789''"
proof (induction n rule: toString.induct)
  case (1 n)
  show ?case
  proof (cases "n < 10")
    case True
    then show ?thesis
      using digitChar_digit [OF True] by (subst (1 2) toString.simps) simp
  next
    case False
    have "n mod 10 < 10" by simp
    then show ?thesis
      using 1 [OF False] False digitChar_digit [of "n mod 10"]
      by (subst (1 2) toString.simps) auto
  qed
qed

lemma isSlash_not_name:
  "isSlash c \<Longrightarrow> c \<notin> set ''0123456789'' \<and> c \<notin> set ''module-''"
  by (auto simp: isSlash_def)

lemma fallbackName_chars:
  "fallbackName i \<noteq> [] \<and> hd (fallbackName i) = CHR ''m'' \<and> (\<forall>c\<in>set (fallbackName i). \<not> isSlash c)"
proof -
  have f: "fallbackName i = ''module-'' @ replicate (4 - length (toString i)) CHR ''0'' @ toString i"
    by (simp add: fallbackName_def padStart_def)
  have "\<not> isSlash c" if "c \<in> set (fallbackName i)" for c
  proof
    assume s: "isSlash c"
    have "c \<in> set ''module-'' \<or> c \<in> set (replicate (4 - length (toString i)) CHR ''0'') \<or> c \<in> set (toString i)"
      using that unfolding f by (simp only: set_append Un_iff)
    moreover have "c \<in> set (replicate (4 - length (toString i)) CHR ''0'') \<Longrightarrow> c \<in> set ''0123456789''"
      by (auto split: if_splits)
    ultimately have "c \<in> set ''module-'' \<or> c \<in> set ''0123456789''"
      using toString_digits [of i] by blast
    then show False using isSlash_not_name [OF s] by blast
  qed
  moreover have "fallbackName i \<noteq> []" and "hd (fallbackName i) = CHR ''m''"
    unfolding f by simp_all
  ultimately show ?thesis by blast
qed

lemma loaderExt_chars:
  assumes "loaderDefaultExtensions l = Some e"
  shows "CHR ''/'' \<notin> set e \<and> CHR 0x5C \<notin> set e"
proof -
  let ?table = "[(0::nat, ''.jsx''), (1, ''.js''), (2, ''.ts''), (3, ''.tsx''), (4, ''.css''), (5, ''''),
      (6, ''.json''), (7, ''.json''), (8, ''.toml''), (9, ''.wasm''), (10, ''.node''),
      (11, ''.txt''), (12, ''.txt''), (13, ''.txt''), (14, ''.sh''), (15, ''.sqlite''),
      (16, ''.sqlite''), (17, ''.html''), (18, ''.yaml'')]"
  have m: "(l, e) \<in> set ?table"
    using assms unfolding loaderDefaultExtensions_def by (rule map_of_SomeD)
  have "\<forall>x\<in>set ?table. CHR ''/'' \<notin> set (snd x) \<and> CHR 0x5C \<notin> set (snd x)"
    by simp
  from bspec [OF this m] show ?thesis by simp
qed

lemma fallbackExt_chars:
  "\<forall>c\<in>set (case loaderDefaultExtensions l of Some e \<Rightarrow> e | None \<Rightarrow> ''.bin''). \<not> isSlash c"
proof (cases "loaderDefaultExtensions l")
  case None
  then show ?thesis by (simp add: isSlash_def)
next
  case (Some e)
  then show ?thesis using loaderExt_chars [OF Some] by (auto simp: isSlash_def)
qed

lemma nameParts_join:
  assumes "nameParts ps"
  shows "join ''/'' ps \<noteq> []" and "\<not> isSlash (hd (join ''/'' ps))"
    and "last (join ''/'' ps) \<noteq> CHR ''/''"
    and "splitRuns isSlash (join ''/'' ps) = ps"
    and "splitOn CHR ''/'' (join ''/'' ps) = ps"
proof -
  have ne: "ps \<noteq> []" and el: "\<forall>p\<in>set ps. p \<noteq> '''' \<and> (\<forall>c\<in>set p. \<not> isSlash c)"
    using assms by (auto simp: nameParts_def)
  have h1: "hd ps \<noteq> [] \<and> (\<forall>c\<in>set (hd ps). \<not> isSlash c)"
    using el hd_in_set [OF ne] by (rule bspec)
  then have "hd (hd ps) \<in> set (hd ps)" by simp
  then have h: "hd ps \<noteq> []" "\<not> isSlash (hd (hd ps))" using h1 by blast+
  have l1: "last ps \<noteq> [] \<and> (\<forall>c\<in>set (last ps). \<not> isSlash c)"
    using el last_in_set [OF ne] by (rule bspec)
  then have "last (last ps) \<in> set (last ps)" by simp
  then have l: "last ps \<noteq> []" "\<not> isSlash (last (last ps))" using l1 by blast+
  show "join ''/'' ps \<noteq> []" using join_hd [OF ne h(1)] by simp
  show "\<not> isSlash (hd (join ''/'' ps))" using join_hd [OF ne h(1)] h(2) by simp
  show "last (join ''/'' ps) \<noteq> CHR ''/''"
    using join_last [OF ne l(1), of "''/''"] l(2) by (auto simp: isSlash_def)
  show "splitRuns isSlash (join ''/'' ps) = ps"
    by (rule splitRuns_join [OF ne el])
  have "\<forall>p\<in>set ps. CHR ''/'' \<notin> set p"
    using el by (auto simp: isSlash_def)
  then show "splitOn CHR ''/'' (join ''/'' ps) = ps"
    using splitOn_join [OF ne, of "CHR ''/''"] by simp
qed

lemma nameParts_staysBelow: "nameParts ps \<Longrightarrow> staysBelow (join ''/'' ps)"
  using nameParts_join [of ps]
  by (auto simp: staysBelow_def nameParts_def isSlash_def)

text \<open>
  On the POSIX host the path before collision resolution is the sanitized path as it
  is, or the fallback name with the loader's extension: in both cases a sequence of
  names joined by slashes, none of them empty or \<open>..\<close>.
\<close>

lemma finalPathOf_from:
  assumes ps: "nameParts ps"
    and c1: "(if sanitizeModulePath (originalPath m) = ''''
              then fallbackName i @ (case loaderDefaultExtensions (loader m) of Some e \<Rightarrow> e | None \<Rightarrow> ''.bin'')
              else sanitizeModulePath (originalPath m)) = join ''/'' ps"
  shows "finalPathOf (posix_host cwd) m i = join ''/'' ps"
proof -
  let ?j = "join ''/'' ps"
  note j = nameParts_join [OF ps]
  have d: "dropWhile isSlash ?j = ?j"
    using j(1,2) by (rule dropWhile_hd)
  have a: "\<not> posix_isAbsolute ?j"
    using j(1,2) by (cases ?j) (auto simp: posix_isAbsolute_def isSlash_def)
  have f: "filter (\<lambda>s. s \<noteq> '''') ps = ps"
    using ps by (auto simp: nameParts_def filter_id_conv)
  have sep: "path_sep (posix_host cwd) = ''/''"
    and ab: "path_isAbsolute (posix_host cwd) = posix_isAbsolute"
    by (simp_all add: posix_host_def)
  show ?thesis
    unfolding finalPathOf_def Let_def c1 sep ab d
    using j(1) by (simp add: a j(4) f)
qed

lemma finalPathOf_posix:
  "\<exists>ps. nameParts ps \<and> finalPathOf (posix_host cwd) m i = join ''/'' ps"
proof -
  let ?kept = "filter (\<lambda>part. part \<noteq> '''' \<and> part \<noteq> ''..'')
                 (splitOn CHR ''/'' (cleanModulePath (originalPath m)))"
  let ?fb = "fallbackName i @ (case loaderDefaultExtensions (loader m) of Some e \<Rightarrow> e | None \<Rightarrow> ''.bin'')"
  have san: "sanitizeModulePath (originalPath m) = join ''/'' ?kept"
    by (simp add: sanitizeModulePath_def)
  show ?thesis
  proof (cases "?kept = []")
    case True
    have "?fb \<noteq> []" and "hd ?fb = CHR ''m''" and "\<forall>c\<in>set ?fb. \<not> isSlash c"
      using fallbackName_chars [of i] fallbackExt_chars [of "loader m"] by auto
    moreover from this have "?fb \<noteq> ''..''" by (cases ?fb) auto
    ultimately have fb: "nameParts [?fb]" by (simp add: nameParts_def)
    have "sanitizeModulePath (originalPath m) = ''''" using san True by simp
    then have "finalPathOf (posix_host cwd) m i = join ''/'' [?fb]"
      by (intro finalPathOf_from [OF fb]) simp
    then show ?thesis using fb by blast
  next
    case False
    have "\<forall>p\<in>set ?kept. \<forall>c\<in>set p. \<not> isSlash c"
    proof (intro ballI)
      fix p c assume p: "p \<in> set ?kept" and c: "c \<in> set p"
      then have "p \<in> set (splitOn CHR ''/'' (cleanModulePath (originalPath m)))" by simp
      then have "CHR ''/'' \<notin> set p" and "set p \<subseteq> set (cleanModulePath (originalPath m))"
        using splitOn_no_sep splitOn_subset by blast+
      then show "\<not> isSlash c"
        using c cleanModulePath_no_backslash [of "originalPath m"] by (auto simp: isSlash_def)
    qed
    then have kept: "nameParts ?kept"
      using False by (simp add: nameParts_def)
    have "join ''/'' ?kept \<noteq> []" using nameParts_join(1) [OF kept] .
    then have "finalPathOf (posix_host cwd) m i = join ''/'' ?kept"
      by (intro finalPathOf_from [OF kept]) (simp add: san)
    then show ?thesis using kept by blast
  qed
qed

text \<open>
  The extension that \<open>extname\<close> returns for a path not ending in a slash is an end of the
  path, so that the base and the extension of \<open>chooseRelativePath\<close> make up the path.
\<close>

lemma posix_extname_step_end:
  "end' st \<noteq> - 1 \<Longrightarrow> end' (posix_extname_step p st i) = end' st"
  by (simp add: posix_extname_step_def Let_def)

lemma posix_extname_fold_end:
  "end' st \<noteq> - 1 \<Longrightarrow> end' (foldl (posix_extname_step p) st xs) = end' st"
  by (induction xs arbitrary: st) (simp_all add: posix_extname_step_end)

lemma posix_extname_suffix:
  assumes "p \<noteq> []" and "last p \<noteq> CHR ''/''"
  shows "\<exists>k. posix_extname p = drop k p"
proof -
  define st0 where "st0 = \<lparr>startDot = - 1, startPart = 0, end' = - 1, matchedSlash = True,
                  preDotState = 0, stopped = False\<rparr>"
  obtain n where n: "length p = Suc n" using assms(1) by (cases p) auto
  have pn: "p ! n \<noteq> CHR ''/''"
    using assms n by (simp add: last_conv_nth)
  have e1: "end' (posix_extname_step p st0 n) = int n + 1"
    using pn by (simp add: posix_extname_step_def st0_def Let_def)
  define st where "st = foldl (posix_extname_step p) st0 (rev [0..<length p])"
  have "st = foldl (posix_extname_step p) (posix_extname_step p st0 n) (rev [0..<n])"
    by (simp add: st_def n)
  then have e: "end' st = int (length p)"
    using posix_extname_fold_end [of "posix_extname_step p st0 n" p "rev [0..<n]"] e1 n
    by simp
  have "posix_extname p = '''' \<or> posix_extname p = drop (nat (startDot st)) p"
    unfolding posix_extname_def st0_def [symmetric] st_def [symmetric]
    by (simp add: Let_def e)
  then show ?thesis
    by (metis drop_all order_refl)
qed

lemma splitOn_insert_head:
  "c \<notin> set d \<Longrightarrow> splitOn c (d @ w) = (d @ hd (splitOn c w)) # tl (splitOn c w)"
  using splitOn_not_Nil [of c w] by (induction d) auto

lemma splitOn_insert:
  "c \<notin> set d \<Longrightarrow>
   splitOn c (u @ d @ w)
     = butlast (splitOn c u) @ [last (splitOn c u) @ d @ hd (splitOn c w)] @ tl (splitOn c w)"
proof (induction u)
  case Nil
  then show ?case by (simp add: splitOn_insert_head)
next
  case (Cons x u)
  then show ?case
    using splitOn_not_Nil [of c u]
    by (cases "splitOn c u") (auto split: list.splits)
qed

lemma suffix_staysBelow:
  assumes p: "staysBelow (u @ w)" and d: "CHR ''/'' \<notin> set d" "hd d = CHR ''.''" "d \<noteq> []"
    and x: "x \<in> set d" "x \<noteq> CHR ''.''"
  shows "staysBelow (u @ d @ w)"
proof -
  let ?c = "CHR ''/''"
  have hd: "hd (u @ d @ w) \<noteq> ?c"
  proof (cases u)
    case Nil
    then show ?thesis using d by simp
  next
    case (Cons a u')
    then show ?thesis using p by (simp add: staysBelow_def)
  qed
  have a: "splitOn ?c (u @ d @ w)
     = butlast (splitOn ?c u) @ [last (splitOn ?c u) @ d @ hd (splitOn ?c w)] @ tl (splitOn ?c w)"
    by (rule splitOn_insert [OF d(1)])
  have b: "splitOn ?c (u @ w)
     = butlast (splitOn ?c u) @ [last (splitOn ?c u) @ hd (splitOn ?c w)] @ tl (splitOn ?c w)"
    using splitOn_insert [of ?c "[]" u w] by simp
  have "''..'' \<notin> set (butlast (splitOn ?c u))" and "''..'' \<notin> set (tl (splitOn ?c w))"
    using p unfolding staysBelow_def b by auto
  moreover have "last (splitOn ?c u) @ d @ hd (splitOn ?c w) \<noteq> ''..''"
  proof
    assume "last (splitOn ?c u) @ d @ hd (splitOn ?c w) = ''..''"
    then have "set d \<subseteq> set ''..''"
      by (metis set_append sup.cobounded1 sup.cobounded2 subset_trans)
    then show False using x by auto
  qed
  ultimately have "''..'' \<notin> set (splitOn ?c (u @ d @ w))"
    unfolding a by auto
  then show ?thesis
    using hd d(3) by (simp add: staysBelow_def)
qed

lemma suffixed_posix:
  assumes ps: "nameParts ps"
  shows "staysBelow (suffixed (posix_host cwd) (join ''/'' ps) count)"
proof -
  let ?p = "join ''/'' ps"
  note j = nameParts_join [OF ps]
  obtain k where k: "posix_extname ?p = drop k ?p"
    using posix_extname_suffix [OF j(1) j(3)] by blast
  have base: "sliceTo ?p (int (length ?p) - int (length ?p - k)) = take k ?p"
  proof (cases "k \<le> length ?p")
    case True
    then have "int (length ?p) - int (length ?p - k) = int k" by linarith
    then have "sliceTo ?p (int (length ?p) - int (length ?p - k)) = sliceTo ?p (int k)"
      by (simp only:)
    also have "\<dots> = take k ?p" by (simp add: sliceTo_def)
    finally show ?thesis .
  next
    case False
    then have "int (length ?p) - int (length ?p - k) = int (length ?p)" by linarith
    then have "sliceTo ?p (int (length ?p) - int (length ?p - k)) = sliceTo ?p (int (length ?p))"
      by (simp only:)
    also have "\<dots> = take k ?p" using False by (simp add: sliceTo_def)
    finally show ?thesis .
  qed
  have s: "suffixed (posix_host cwd) ?p count = take k ?p @ (''.'' @ toString count) @ drop k ?p"
    by (simp add: suffixed_def posix_host_def Let_def k base)
  obtain x where x: "x \<in> set (toString count)" "x \<in> set ''0123456789''"
    using toString_digits [of count] by (cases "toString count") auto
  have "CHR ''/'' \<notin> set (''.'' @ toString count)"
    using toString_digits [of count] by auto
  moreover have "x \<in> set (''.'' @ toString count)" "x \<noteq> CHR ''.''"
    using x by auto
  moreover have "staysBelow (take k ?p @ drop k ?p)"
    using nameParts_staysBelow [OF ps] by simp
  ultimately show ?thesis
    unfolding s by (intro suffix_staysBelow) simp_all
qed

lemma chooseRelativePath_posix:
  "staysBelow (fst (chooseRelativePath (posix_host cwd) m i used))"
proof -
  obtain ps where ps: "nameParts ps" "finalPathOf (posix_host cwd) m i = join ''/'' ps"
    using finalPathOf_posix by blast
  show ?thesis
    using nameParts_staysBelow [OF ps(1)] suffixed_posix [OF ps(1)]
    by (simp add: chooseRelativePath_def ps(2) Let_def split: option.splits)
qed

lemma choosePaths_posix:
  "\<forall>rel\<in>set (choosePaths (posix_host cwd) ms i used). staysBelow rel"
proof (induction ms arbitrary: i used)
  case Nil
  then show ?case by simp
next
  case (Cons m ms)
  obtain rel used' where c: "chooseRelativePath (posix_host cwd) m i used = (rel, used')"
    by (cases "chooseRelativePath (posix_host cwd) m i used")
  then have "staysBelow rel"
    using chooseRelativePath_posix [of cwd m i used] by simp
  then show ?case
    using Cons [of "Suc i" used'] by (simp add: c)
qed

subsection \<open>Targets and the output directory\<close>

lemma posix_targets:
  assumes i: "i < length ms"
  shows "insideOutput (posix_resolve cwd [outputDir])
           (ensureTrailingSep (posix_host cwd) (posix_resolve cwd [outputDir]))
           (targetPaths (posix_host cwd) (posix_resolve cwd [outputDir]) ms ! i)"
    and "segments CHR ''/'' (targetPaths (posix_host cwd) (posix_resolve cwd [outputDir]) ms ! i)
           = segments CHR ''/'' (posix_resolve cwd [outputDir])
             @ filter (\<lambda>s. s \<noteq> ''.'')
                 (segments CHR ''/'' (choosePaths (posix_host cwd) ms 0 Map.empty ! i))"
    and "''..'' \<notin> set (segments CHR ''/'' (choosePaths (posix_host cwd) ms 0 Map.empty ! i))"
proof -
  let ?rel = "choosePaths (posix_host cwd) ms 0 Map.empty ! i"
  obtain ns where ns: "plain ns" "posix_resolve cwd [outputDir] = ''/'' @ join ''/'' ns"
    using posix_resolve_form by blast
  have "?rel \<in> set (choosePaths (posix_host cwd) ms 0 Map.empty)"
    using i by simp
  then have rel: "staysBelow ?rel"
    using choosePaths_posix by blast
  have t: "targetPaths (posix_host cwd) (posix_resolve cwd [outputDir]) ms ! i
             = posix_resolve cwd [posix_resolve cwd [outputDir], ?rel]"
    using i by (simp add: targetPaths_def posix_host_def)
  show "insideOutput (posix_resolve cwd [outputDir])
           (ensureTrailingSep (posix_host cwd) (posix_resolve cwd [outputDir]))
           (targetPaths (posix_host cwd) (posix_resolve cwd [outputDir]) ms ! i)"
    unfolding t unfolding ns(2) by (rule posix_target_passes [OF ns(1) rel])
  show "segments CHR ''/'' (targetPaths (posix_host cwd) (posix_resolve cwd [outputDir]) ms ! i)
           = segments CHR ''/'' (posix_resolve cwd [outputDir])
             @ filter (\<lambda>s. s \<noteq> ''.'') (segments CHR ''/'' ?rel)"
    unfolding t unfolding ns(2) by (rule posix_target_segments [OF ns(1) rel])
  show "''..'' \<notin> set (segments CHR ''/'' ?rel)"
    using rel by (simp add: staysBelow_def segments_def)
qed

lemma takeWhile_nth_all:
  assumes "\<And>i. i < length xs \<Longrightarrow> P (xs ! i)"
  shows "takeWhile P xs = xs"
proof -
  have "\<forall>x\<in>set xs. P x"
    using assms by (auto simp: in_set_conv_nth)
  then show ?thesis by (simp add: takeWhile_eq_all_conv)
qed

lemma writeOutputs_posix:
  "writeOutputs (posix_host cwd) parsed outputDir =
     (Mkdir (posix_resolve cwd [outputDir])
        # allModuleWrites (posix_host cwd)
            (targetPaths (posix_host cwd) (posix_resolve cwd [outputDir]) (modules parsed))
            (modules parsed)
        @ closingWrites (posix_host cwd) (posix_resolve cwd [outputDir]) parsed
            (allModuleMeta 0 (modules parsed)
               (choosePaths (posix_host cwd) (modules parsed) 0 Map.empty)),
      None)"
proof -
  let ?out = "posix_resolve cwd [outputDir]"
  let ?ts = "targetPaths (posix_host cwd) ?out (modules parsed)"
  have r: "path_resolve (posix_host cwd) [outputDir] = ?out"
    by (simp add: posix_host_def)
  have "takeWhile (insideOutput ?out (ensureTrailingSep (posix_host cwd) ?out)) ?ts = ?ts"
    by (rule takeWhile_nth_all) (simp add: posix_targets(1))
  then have "length (takeWhile (insideOutput ?out (ensureTrailingSep (posix_host cwd) ?out)) ?ts)
               = length ?ts"
    by (simp only:)
  then have k: "length (takeWhile (insideOutput ?out (ensureTrailingSep (posix_host cwd) ?out)) ?ts)
               = length (modules parsed)"
    by (simp only: targetPaths_length)
  show ?thesis
    unfolding writeOutputs_closed [of "posix_host cwd" parsed outputDir] Let_def r k
    by simp
qed

lemma writeOutputs_at_or_below:
  assumes sep: "path_sep h = [c]"
  shows "\<exists>k\<le>length (modules parsed).
           (\<forall>i<k. atOrBelow c (path_resolve h [outputDir])
                     (targetPaths h (path_resolve h [outputDir]) (modules parsed) ! i))
           \<and> writeOutputs h parsed outputDir =
               (if k < length (modules parsed)
                then (Mkdir (path_resolve h [outputDir])
                        # allModuleWrites h
                            (take k (targetPaths h (path_resolve h [outputDir]) (modules parsed)))
                            (take k (modules parsed)),
                      Some (PathOutOfBounds
                              (targetPaths h (path_resolve h [outputDir]) (modules parsed) ! k)))
                else (Mkdir (path_resolve h [outputDir])
                        # allModuleWrites h
                            (targetPaths h (path_resolve h [outputDir]) (modules parsed))
                            (modules parsed)
                        @ closingWrites h (path_resolve h [outputDir]) parsed
                            (allModuleMeta 0 (modules parsed)
                               (choosePaths h (modules parsed) 0 Map.empty)),
                      None))"
proof -
  define out where "out = path_resolve h [outputDir]"
  define ts where "ts = targetPaths h out (modules parsed)"
  define P where "P = insideOutput out (ensureTrailingSep h out)"
  define k where "k = length (takeWhile P ts)"
  have kl: "k \<le> length (modules parsed)"
    unfolding k_def using length_takeWhile_le [of P ts] by (simp add: ts_def)
  have "P (ts ! i)" if "i < k" for i
    using that unfolding k_def by (metis nth_mem set_takeWhileD takeWhile_nth)
  then have a: "\<forall>i<k. atOrBelow c out (ts ! i)"
    unfolding P_def using insideOutput_atOrBelow [OF sep] by blast
  have w: "writeOutputs h parsed outputDir =
             (if k < length (modules parsed)
              then (Mkdir out # allModuleWrites h (take k ts) (take k (modules parsed)),
                    Some (PathOutOfBounds (ts ! k)))
              else (Mkdir out # allModuleWrites h ts (modules parsed)
                      @ closingWrites h out parsed
                          (allModuleMeta 0 (modules parsed)
                             (choosePaths h (modules parsed) 0 Map.empty)),
                    None))"
    using writeOutputs_closed [of h parsed outputDir]
    by (simp add: Let_def out_def ts_def P_def k_def)
  show ?thesis
    using kl a w unfolding out_def ts_def by blast
qed




end
